theory Spec2Isabelle
  imports Complex_Main "HOL-Library.Word"
begin

section \<open>The TETRA carrier detector (tetra\_detector\_app.c)\<close>

text \<open>
  A shallow embedding of \<^verbatim>\<open>src/python_detector/tetra_detector_app.c\<close>: the detection
  and lock state machine of \<^verbatim>\<open>python_detector_app\<close>, the persistence test
  \<^verbatim>\<open>persist\<close>, the key handler \<^verbatim>\<open>input_cb\<close>, calibration and start-up.

  The repository holds a second, older copy of the program
  (\<^verbatim>\<open>tldr final 01/applications_user/python_detector\<close>) with the same loop, key handler
  and \<^verbatim>\<open>persist\<close>, global variables in place of \<^verbatim>\<open>AppCtx\<close> and no radio session; the
  model follows the copy with the session.

  Conventions of the model.
  \<^item> \<^verbatim>\<open>uint32_t\<close> (frequencies, ticks) is \<open>32 word\<close>: \<open>+\<close>, \<open>-\<close>, \<open>*\<close> wrap, \<open>div\<close> and
    \<open><\<close> are unsigned. \<^verbatim>\<open>size_t\<close> loop indices never exceed 201 and are \<open>nat\<close>.
  \<^item> \<^verbatim>\<open>float\<close> values are the finite binary32 numbers, held as \<open>real\<close>: every arithmetic
    operation and every conversion from \<^verbatim>\<open>int\<close> rounds its exact result to the nearest
    binary32 number, ties to even (\<open>rnd32\<close>); comparisons are exact. Overflow, infinities
    and NaN are outside the model. \<^verbatim>\<open>int sens\<close> is \<open>int\<close> (it is only incremented below 5).
  \<^item> The radio, the clock and the keypad are scripts held in the \<open>world\<close>: every call of
    \<^verbatim>\<open>furi_get_tick\<close> takes the next entry of \<open>tick_src\<close>, every call of \<^verbatim>\<open>get_rssi\<close> the
    next entry of \<open>rssi_src\<close>. A call on an empty script yields \<open>ScriptExhausted\<close>, so a
    result \<open>Inr\<close> always stands for a run of the C code that returned.
  \<^item> Key events reach \<^verbatim>\<open>input_cb\<close> while the loop sleeps in
    \<^verbatim>\<open>furi_delay_ms(FRAME_MS)\<close>, once per dwell step: \<open>input_src\<close> holds one batch of events
    per frame delay (none once the script is empty). \<^verbatim>\<open>input_cb\<close> writes none of the fields
    \<open>locked\<close>, \<open>lock_start\<close>, \<open>last_freq\<close>, \<open>last_rssi\<close>, \<open>last_pk\<close> and \<open>baseline\<close>.
  \<^item> Calls observable from outside are appended to the log \<open>effects\<close>: tuning, the two
    notifications, \<^verbatim>\<open>furi_record_open\<close> and \<^verbatim>\<open>furi_record_close\<close>, the device registry,
    the radio session and the registration of the view port. Rendering (\<^verbatim>\<open>render\<close>,
    \<^verbatim>\<open>view_port_update\<close>) and the popup text are not modelled.
  \<^item> An array read outside its declared length is the error \<open>IndexOutOfBounds\<close>.
\<close>

type_synonym u32 = "32 word"

subsection \<open>Compile-time constants\<close>

definition MIN_RSSI_DBM :: real where "MIN_RSSI_DBM = - 80"
definition THRESH_DB :: int where "THRESH_DB = 8"
definition SLOT_MS :: u32 where "SLOT_MS = 14"
definition UP_START_FREQ :: u32 where "UP_START_FREQ = 380000000"
definition UP_END_FREQ :: u32 where "UP_END_FREQ = 385000000"
definition FREQ_STEP :: u32 where "FREQ_STEP = 25000"
definition UP_NUM_CH :: nat where
  "UP_NUM_CH = unat ((UP_END_FREQ - UP_START_FREQ) div FREQ_STEP + 1)"

definition STATIC_FREQS :: "u32 list" where
  "STATIC_FREQS =
    [389540000, 388790000, 389170000,
     380450000, 380425000, 380400000,
     379650000, 380500000, 379625000,
     380375000, 379375000, 380325000,
     380300000, 379300000, 380025000,
     384437500, 384712500]"

definition STATIC_CH :: nat where "STATIC_CH = length STATIC_FREQS"

definition POPUP_MS :: u32 where "POPUP_MS = 2000"
definition LOCK_HOLD_MS :: u32 where "LOCK_HOLD_MS = 20000"
definition LOCK_RSSI_DROP :: real where "LOCK_RSSI_DROP = 5"

subsection \<open>Data\<close>

datatype AlertMode = OFF | ONCE | REP8 | REP12 | REP3 | REP6

datatype InputType =
  InputTypePress | InputTypeRelease | InputTypeShort | InputTypeLong | InputTypeRepeat

datatype InputKey =
  InputKeyUp | InputKeyDown | InputKeyRight | InputKeyLeft | InputKeyOk | InputKeyBack
  | InputKeyMAX

datatype InputEvent = InputEvent InputType InputKey

record AppCtx =
  exit :: bool
  baseline :: "real list"
  locked :: bool
  lock_start :: u32
  popup_until :: u32
  mode :: AlertMode
  free_scan :: bool
  debug :: bool
  tdma :: bool
  sens :: int
  last_freq :: u32
  last_rssi :: real
  last_pk :: bool

datatype effect =
  Tune u32 | Alert | Ack | RegistryInit | RegistryDeinit | RadioBegin | RadioEnd
  | RecordOpen string | RecordClose string | ViewPortAdd | ViewPortRemove

datatype error = IndexOutOfBounds nat nat | ScriptExhausted | StepLimit

record world =
  tick_src :: "u32 list"
  rssi_src :: "real list"
  input_src :: "InputEvent list list"
  effects :: "effect list"

subsection \<open>Collaborators\<close>

definition furi_get_tick :: "world \<Rightarrow> error + (u32 \<times> world)" where
  "furi_get_tick w =
    (case tick_src w of
       [] \<Rightarrow> Inl ScriptExhausted
     | t # ts \<Rightarrow> Inr (t, w\<lparr>tick_src := ts\<rparr>))"

definition get_rssi :: "world \<Rightarrow> error + (real \<times> world)" where
  "get_rssi w =
    (case rssi_src w of
       [] \<Rightarrow> Inl ScriptExhausted
     | r # rs \<Rightarrow> Inr (r, w\<lparr>rssi_src := rs\<rparr>))"

definition emit :: "effect \<Rightarrow> world \<Rightarrow> world" where
  "emit e w = w\<lparr>effects := effects w @ [e]\<rparr>"

definition read_rssi :: "u32 \<Rightarrow> world \<Rightarrow> error + (real \<times> world)" where
  "read_rssi freq w = get_rssi (emit (Tune freq) w)"

definition index :: "'a list \<Rightarrow> nat \<Rightarrow> error + 'a" where
  "index xs i = (if i < length xs then Inr (xs ! i) else Inl (IndexOutOfBounds i (length xs)))"

subsection \<open>persist\<close>

text \<open>
  The loop of \<^verbatim>\<open>persist\<close>: read the clock; inside the slot take one sample and leave with
  \<open>False\<close> if it is below the threshold; outside the slot leave with \<open>True\<close>. The recursion
  is on the clock script, the sample script is threaded through.
\<close>

fun persist_loop ::
  "u32 \<Rightarrow> real \<Rightarrow> u32 list \<Rightarrow> real list \<Rightarrow> error + (bool \<times> u32 list \<times> real list)" where
  "persist_loop end thr [] rs = Inl ScriptExhausted"
| "persist_loop end thr (t # ts) rs =
    (if t < end then
       (case rs of
          [] \<Rightarrow> Inl ScriptExhausted
        | r # rs' \<Rightarrow> if r < thr then Inr (False, ts, rs') else persist_loop end thr ts rs')
     else Inr (True, ts, rs))"

definition persist :: "(u32 \<Rightarrow> u32) \<Rightarrow> real \<Rightarrow> world \<Rightarrow> error + (bool \<times> world)" where
  "persist ticks threshold w =
    (case tick_src w of
       [] \<Rightarrow> Inl ScriptExhausted
     | t0 # ts \<Rightarrow>
        (case persist_loop (t0 + ticks SLOT_MS) threshold ts (rssi_src w) of
           Inl e \<Rightarrow> Inl e
         | Inr (b, ts', rs') \<Rightarrow> Inr (b, w\<lparr>tick_src := ts', rssi_src := rs'\<rparr>)))"

subsection \<open>Single-precision arithmetic\<close>

text \<open>
  \<open>rnd32\<close> rounds a real number to the nearest binary32 number, ties to even: \<open>binade\<close>
  finds the exponent \<open>e\<close> with \<open>2^e \<le> |x| < 2^(e+1)\<close>, not below \<open>-126\<close> (the subnormal
  range) and not above 127, and the number is rounded to a multiple of \<open>2^(e-23)\<close>.
  \<open>fadd\<close> and \<open>fsub\<close> are \<^verbatim>\<open>+\<close> and \<^verbatim>\<open>-\<close> on \<^verbatim>\<open>float\<close>, \<open>float_of_int\<close> the conversion
  the compiler inserts where an \<^verbatim>\<open>int\<close> meets a \<^verbatim>\<open>float\<close>.
\<close>

definition pow2 :: "int \<Rightarrow> real" where
  "pow2 e = (if 0 \<le> e then 2 ^ nat e else 1 / 2 ^ nat (- e))"

fun exp_up :: "nat \<Rightarrow> int \<Rightarrow> real \<Rightarrow> int" where
  "exp_up 0 e x = e"
| "exp_up (Suc k) e x = (if pow2 (e + 1) \<le> x then exp_up k (e + 1) x else e)"

fun exp_down :: "nat \<Rightarrow> int \<Rightarrow> real \<Rightarrow> int" where
  "exp_down 0 e x = e"
| "exp_down (Suc k) e x = (if x < pow2 e then exp_down k (e - 1) x else e)"

definition binade :: "real \<Rightarrow> int" where
  "binade x = (if 1 \<le> x then exp_up 127 0 x else exp_down 126 0 x)"

definition round_even :: "real \<Rightarrow> int" where
  "round_even q =
    (let f = \<lfloor>q\<rfloor>; d = q - of_int f in
     if d < 1 / 2 then f else if 1 / 2 < d then f + 1 else if even f then f else f + 1)"

definition rnd32 :: "real \<Rightarrow> real" where
  "rnd32 x = (let ulp = pow2 (binade \<bar>x\<bar> - 23) in of_int (round_even (x / ulp)) * ulp)"

definition fadd :: "real \<Rightarrow> real \<Rightarrow> real" where
  "fadd x y = rnd32 (x + y)"

definition fsub :: "real \<Rightarrow> real \<Rightarrow> real" where
  "fsub x y = rnd32 (x - y)"

definition float_of_int :: "int \<Rightarrow> real" where
  "float_of_int i = rnd32 (of_int i)"

subsection \<open>Thresholds\<close>

text \<open>
  Lines 254 and 237: \<^verbatim>\<open>base + THRESH_DB - app.sens\<close> and
  \<^verbatim>\<open>base + THRESH_DB - app.sens - LOCK_RSSI_DROP\<close>, evaluated left to right in
  \<^verbatim>\<open>float\<close>.
\<close>

definition scan_threshold :: "real \<Rightarrow> int \<Rightarrow> real" where
  "scan_threshold base s = fsub (fadd base (float_of_int THRESH_DB)) (float_of_int s)"

definition lock_threshold :: "real \<Rightarrow> int \<Rightarrow> real" where
  "lock_threshold base s =
     fsub (fsub (fadd base (float_of_int THRESH_DB)) (float_of_int s)) LOCK_RSSI_DROP"

subsection \<open>input\_cb\<close>

fun next_mode :: "AlertMode \<Rightarrow> AlertMode" where
  "next_mode OFF = ONCE"
| "next_mode ONCE = REP8"
| "next_mode REP8 = REP12"
| "next_mode REP12 = REP3"
| "next_mode REP3 = REP6"
| "next_mode REP6 = OFF"

fun on_key :: "InputKey \<Rightarrow> AppCtx \<Rightarrow> AppCtx" where
  "on_key InputKeyUp app = app\<lparr>mode := next_mode (mode app)\<rparr>"
| "on_key InputKeyLeft app = app\<lparr>free_scan := \<not> free_scan app\<rparr>"
| "on_key InputKeyRight app = app\<lparr>sens := (if sens app < 5 then sens app + 1 else 1)\<rparr>"
| "on_key InputKeyDown app = app\<lparr>debug := \<not> debug app\<rparr>"
| "on_key InputKeyOk app = app\<lparr>tdma := \<not> tdma app\<rparr>"
| "on_key InputKeyBack app = app\<lparr>exit := True\<rparr>"
| "on_key InputKeyMAX app = app"

fun input_cb ::
  "(u32 \<Rightarrow> u32) \<Rightarrow> InputEvent \<Rightarrow> AppCtx \<Rightarrow> world \<Rightarrow> error + (AppCtx \<times> world)" where
  "input_cb ticks (InputEvent ty k) app w =
    (if ty = InputTypePress then
       (case furi_get_tick w of
          Inl e \<Rightarrow> Inl e
        | Inr (t, w') \<Rightarrow> Inr ((on_key k app)\<lparr>popup_until := t + ticks POPUP_MS\<rparr>, emit Ack w'))
     else Inr (app, w))"

fun deliver ::
  "(u32 \<Rightarrow> u32) \<Rightarrow> InputEvent list \<Rightarrow> AppCtx \<Rightarrow> world \<Rightarrow> error + (AppCtx \<times> world)" where
  "deliver ticks [] app w = Inr (app, w)"
| "deliver ticks (e # es) app w =
    (case input_cb ticks e app w of
       Inl x \<Rightarrow> Inl x
     | Inr (app', w') \<Rightarrow> deliver ticks es app' w')"

text \<open>\<^verbatim>\<open>furi_delay_ms(FRAME_MS)\<close>: the key events of this frame reach \<^verbatim>\<open>input_cb\<close>.\<close>

definition frame_delay ::
  "(u32 \<Rightarrow> u32) \<Rightarrow> AppCtx \<Rightarrow> world \<Rightarrow> error + (AppCtx \<times> world)" where
  "frame_delay ticks app w =
    (case input_src w of
       [] \<Rightarrow> Inr (app, w)
     | b # bs \<Rightarrow> deliver ticks b app (w\<lparr>input_src := bs\<rparr>))"

subsection \<open>The detection state machine\<close>

text \<open>
  Lines 251 and 253: the frequency and the baseline of channel \<open>i\<close> under the scan-mode
  flag; lines 234 to 236: the baseline looked up for a locked frequency.
\<close>

definition channel_freq :: "bool \<Rightarrow> nat \<Rightarrow> error + u32" where
  "channel_freq fs i =
    (if fs then Inr (UP_START_FREQ + of_nat i * FREQ_STEP) else index STATIC_FREQS i)"

definition channel_base :: "AppCtx \<Rightarrow> nat \<Rightarrow> error + real" where
  "channel_base app i = (if free_scan app then index (baseline app) i else Inr MIN_RSSI_DBM)"

definition locked_base :: "AppCtx \<Rightarrow> u32 \<Rightarrow> error + real" where
  "locked_base app freq =
    (if free_scan app
     then index (baseline app) (unat ((freq - UP_START_FREQ) div FREQ_STEP))
     else Inr MIN_RSSI_DBM)"

text \<open>Lines 231 to 247: one dwell step in the locked state.\<close>

definition locked_step ::
  "(u32 \<Rightarrow> u32) \<Rightarrow> u32 \<Rightarrow> AppCtx \<Rightarrow> world \<Rightarrow> error + (AppCtx \<times> world)" where
  "locked_step ticks now app w =
    (let freq = last_freq app in
     case read_rssi freq w of
       Inl e \<Rightarrow> Inl e
     | Inr (r0, w1) \<Rightarrow>
        (case locked_base app freq of
           Inl e \<Rightarrow> Inl e
         | Inr base \<Rightarrow>
            (let thr = lock_threshold base (sens app) in
             case (if r0 > thr then persist ticks thr w1 else Inr (False, w1)) of
               Inl e \<Rightarrow> Inl e
             | Inr (pk, w2) \<Rightarrow>
                (let app1 =
                   (if pk then app\<lparr>lock_start := now\<rparr>
                    else if now - lock_start app > ticks LOCK_HOLD_MS
                    then app\<lparr>locked := False\<rparr>
                    else app)
                 in frame_delay ticks
                      (app1\<lparr>last_rssi := r0, last_freq := freq, last_pk := pk\<rparr>) w2))))"

text \<open>
  Lines 251 to 265: one dwell step of a scanning pass at index \<open>i\<close>. The flag of the
  result says whether the step locked and left the loop through \<^verbatim>\<open>break\<close>.
\<close>

definition scan_step ::
  "(u32 \<Rightarrow> u32) \<Rightarrow> u32 \<Rightarrow> nat \<Rightarrow> AppCtx \<Rightarrow> world \<Rightarrow> error + (bool \<times> AppCtx \<times> world)" where
  "scan_step ticks now i app w =
    (case channel_freq (free_scan app) i of
       Inl e \<Rightarrow> Inl e
     | Inr freq \<Rightarrow>
        (case read_rssi freq w of
           Inl e \<Rightarrow> Inl e
         | Inr (r0, w1) \<Rightarrow>
            (case channel_base app i of
               Inl e \<Rightarrow> Inl e
             | Inr base \<Rightarrow>
                (let thr = scan_threshold base (sens app) in
                 case (if r0 > thr then persist ticks thr w1 else Inr (False, w1)) of
                   Inl e \<Rightarrow> Inl e
                 | Inr (pk, w2) \<Rightarrow>
                    if pk then
                      Inr (True,
                           app\<lparr>locked := True, lock_start := now, last_freq := freq\<rparr>,
                           emit Alert w2)
                    else
                      (case frame_delay ticks
                              (app\<lparr>last_rssi := r0, last_freq := freq, last_pk := pk\<rparr>) w2 of
                         Inl e \<Rightarrow> Inl e
                       | Inr (app', w3) \<Rightarrow> Inr (False, app', w3))))))"

text \<open>Line 250: \<^verbatim>\<open>for(size_t i=0;i<cnt && !app.exit;i++)\<close>, entered at index \<open>i\<close>.\<close>

function scan_loop ::
  "(u32 \<Rightarrow> u32) \<Rightarrow> u32 \<Rightarrow> nat \<Rightarrow> nat \<Rightarrow> AppCtx \<Rightarrow> world \<Rightarrow> error + (AppCtx \<times> world)" where
  "scan_loop ticks now cnt i app w =
    (if i < cnt \<and> \<not> exit app then
       (case scan_step ticks now i app w of
          Inl e \<Rightarrow> Inl e
        | Inr (brk, app', w') \<Rightarrow>
            if brk then Inr (app', w') else scan_loop ticks now cnt (i + 1) app' w')
     else Inr (app, w))"
  by pat_completeness auto
termination
  by (relation "measure (\<lambda>(ticks, now, cnt, i, app, w). cnt - i)") auto

declare scan_loop.simps [simp del]

text \<open>Lines 229 to 266: the body of \<^verbatim>\<open>while(!app.exit)\<close>.\<close>

definition iteration ::
  "(u32 \<Rightarrow> u32) \<Rightarrow> AppCtx \<Rightarrow> world \<Rightarrow> error + (AppCtx \<times> world)" where
  "iteration ticks app w =
    (case furi_get_tick w of
       Inl e \<Rightarrow> Inl e
     | Inr (now, w0) \<Rightarrow>
        if locked app then locked_step ticks now app w0
        else scan_loop ticks now (if free_scan app then UP_NUM_CH else STATIC_CH) 0 app w0)"

text \<open>The first \<open>n\<close> rounds of \<^verbatim>\<open>while(!app.exit)\<close>, fewer if the exit flag is met.\<close>

fun run :: "nat \<Rightarrow> (u32 \<Rightarrow> u32) \<Rightarrow> AppCtx \<Rightarrow> world \<Rightarrow> error + (AppCtx \<times> world)" where
  "run 0 ticks app w = Inr (app, w)"
| "run (Suc n) ticks app w =
    (if exit app then Inr (app, w)
     else
       (case iteration ticks app w of
          Inl e \<Rightarrow> Inl e
        | Inr (app', w') \<Rightarrow> run n ticks app' w'))"

text \<open>The whole loop, given \<open>n\<close> rounds to reach the exit flag.\<close>

definition main_loop ::
  "nat \<Rightarrow> (u32 \<Rightarrow> u32) \<Rightarrow> AppCtx \<Rightarrow> world \<Rightarrow> error + (AppCtx \<times> world)" where
  "main_loop n ticks app w =
    (case run n ticks app w of
       Inl e \<Rightarrow> Inl e
     | Inr (app', w') \<Rightarrow> if exit app' then Inr (app', w') else Inl StepLimit)"

subsection \<open>Calibration and start-up\<close>

text \<open>Lines 218 to 221, entered at index \<open>i\<close> with the baseline table \<open>bl\<close>.\<close>

function calibrate :: "nat \<Rightarrow> real list \<Rightarrow> world \<Rightarrow> error + (real list \<times> world)" where
  "calibrate i bl w =
    (if i < UP_NUM_CH then
       (case read_rssi (UP_START_FREQ + of_nat i * FREQ_STEP) w of
          Inl e \<Rightarrow> Inl e
        | Inr (r, w') \<Rightarrow> calibrate (i + 1) (bl[i := r]) w')
     else Inr (bl, w))"
  by pat_completeness auto
termination
  by (relation "measure (\<lambda>(i, bl, w). UP_NUM_CH - i)") auto

declare calibrate.simps [simp del]

text \<open>
  What the platform answers at start-up: the tick rate (\<^verbatim>\<open>furi_ms_to_ticks\<close>), whether
  \<^verbatim>\<open>furi_record_open\<close> yields the GUI and the notification service, whether the device
  registry has a device at index 1, and whether its \<^verbatim>\<open>begin\<close> succeeds.
\<close>

record platform =
  furi_ms_to_ticks :: "u32 \<Rightarrow> u32"
  gui_record :: bool
  notification_record :: bool
  radio_device :: bool
  radio_begin :: bool

text \<open>Lines 182 to 195; the fields the initialiser leaves out are zero.\<close>

definition initial_app :: AppCtx where
  "initial_app =
    \<lparr>exit = False, baseline = replicate UP_NUM_CH 0, locked = False, lock_start = 0,
     popup_until = 0, mode = ONCE, free_scan = False, debug = False, tdma = False,
     sens = 3, last_freq = UP_START_FREQ, last_rssi = MIN_RSSI_DBM, last_pk = False\<rparr>"

text \<open>
  \<^verbatim>\<open>python_detector_app\<close>: the exit status and the world it leaves. Both records are
  opened before the test \<^verbatim>\<open>!gui || !app.notif\<close> of line 199, which is written as the two
  tests it short-circuits to. Lines 223 to 226 register the view port, lines 269 to 274
  undo the start-up.
\<close>

definition python_detector_app :: "nat \<Rightarrow> platform \<Rightarrow> world \<Rightarrow> error + (int \<times> world)" where
  "python_detector_app n p w =
    (let w0 = emit (RecordOpen ''notification'') (emit (RecordOpen ''gui'') w) in
     if \<not> gui_record p then Inr (- 1, w0)
     else if \<not> notification_record p then Inr (- 1, w0)
     else
       (let w1 = emit RegistryInit w0 in
        if \<not> radio_device p then Inr (- 1, emit RegistryDeinit w1)
        else
          (let w2 = emit RadioBegin w1 in
           if \<not> radio_begin p then Inr (- 1, emit RegistryDeinit w2)
           else
             (case calibrate 0 (baseline initial_app) w2 of
                Inl e \<Rightarrow> Inl e
              | Inr (bl, w3) \<Rightarrow>
                 (case main_loop n (furi_ms_to_ticks p) (initial_app\<lparr>baseline := bl\<rparr>)
                         (emit ViewPortAdd w3) of
                    Inl e \<Rightarrow> Inl e
                  | Inr (app', w4) \<Rightarrow>
                      Inr (0, emit (RecordClose ''notification'')
                                (emit (RecordClose ''gui'')
                                  (emit RegistryDeinit
                                    (emit RadioEnd (emit ViewPortRemove w4))))))))))"

subsection \<open>Observers\<close>

text \<open>The number of \<^verbatim>\<open>sequence_audiovisual_alert\<close> notifications sent so far.\<close>

definition alerts :: "world \<Rightarrow> nat" where
  "alerts w = length (filter (\<lambda>e. e = Alert) (effects w))"

text \<open>
  The fields of the detector which \<^verbatim>\<open>input_cb\<close> never writes: key events leave them as
  they are.
\<close>

definition same_detection :: "AppCtx \<Rightarrow> AppCtx \<Rightarrow> bool" where
  "same_detection a b \<longleftrightarrow>
     locked b = locked a \<and> lock_start b = lock_start a \<and> last_freq b = last_freq a \<and>
     last_pk b = last_pk a \<and> last_rssi b = last_rssi a \<and> baseline b = baseline a"

text \<open>
  The number of Scanning-to-Locked transitions in the first \<open>n\<close> rounds of the main loop:
  a replay of \<open>run\<close> that counts the rounds entered unlocked and left locked.
\<close>

fun acquisitions :: "nat \<Rightarrow> (u32 \<Rightarrow> u32) \<Rightarrow> AppCtx \<Rightarrow> world \<Rightarrow> nat" where
  "acquisitions 0 ticks app w = 0"
| "acquisitions (Suc n) ticks app w =
    (if exit app then 0
     else
       (case iteration ticks app w of
          Inl e \<Rightarrow> 0
        | Inr (app', w') \<Rightarrow>
            (if \<not> locked app \<and> locked app' then 1 else 0) + acquisitions n ticks app' w'))"

text \<open>
  The rounds of an execution as the clock and the detector show them: for each of the
  first \<open>n\<close> rounds of the main loop, the clock reading \<open>now\<close> of the round and the flag
  \<open>last_pk\<close> it leaves (in a locked round: whether the round re-confirmed the carrier).
\<close>

fun round_log :: "nat \<Rightarrow> (u32 \<Rightarrow> u32) \<Rightarrow> AppCtx \<Rightarrow> world \<Rightarrow> (u32 \<times> bool) list" where
  "round_log 0 ticks app w = []"
| "round_log (Suc n) ticks app w =
    (if exit app then []
     else
       (case tick_src w of
          [] \<Rightarrow> []
        | now # ts \<Rightarrow>
           (case iteration ticks app w of
              Inl e \<Rightarrow> []
            | Inr (app', w') \<Rightarrow> (now, last_pk app') # round_log n ticks app' w')))"

text \<open>Successive entries of a list of time stamps are less than \<open>h\<close> apart.\<close>

fun gaps_below :: "u32 \<Rightarrow> u32 list \<Rightarrow> bool" where
  "gaps_below h (s # s' # ss) = (s' - s < h \<and> gaps_below h (s' # ss))"
| "gaps_below h ss = True"

subsection \<open>Concrete scenarios\<close>

text \<open>A 1 kHz tick, for which \<^verbatim>\<open>furi_ms_to_ticks\<close> is the identity, and a platform on
  which every start-up call succeeds.\<close>

definition ms_ticks :: "u32 \<Rightarrow> u32" where
  "ms_ticks ms = ms"

definition flipper :: platform where
  "flipper = \<lparr>furi_ms_to_ticks = ms_ticks, gui_record = True, notification_record = True,
     radio_device = True, radio_begin = True\<rparr>"

text \<open>The detector after a calibration that measured \<open>-90\<close> on every channel.\<close>

definition calibrated_app :: AppCtx where
  "calibrated_app = initial_app\<lparr>baseline := replicate UP_NUM_CH (- 90)\<rparr>"

text \<open>
  A pass in Fixed mode that starts at tick 1000. Channel 0 reads \<open>-100\<close>; channel 1 reads
  \<open>-70\<close> and holds it over a persistence slot that the clock enters at tick 1100 and
  leaves at tick 1114.
\<close>

definition w_second :: world where
  "w_second = \<lparr>tick_src = [1000, 1100, 1105, 1114], rssi_src = [- 100, - 70, - 70],
     input_src = [], effects = []\<rparr>"

text \<open>
  The detector locked on 389.540 MHz (the first fixed channel) at tick 0, and a world in
  which the next locked step, at tick 15000, re-confirms the carrier over a full slot and
  the one after it, at tick 35000, reads \<open>-100\<close>.
\<close>

definition locked_app :: AppCtx where
  "locked_app = calibrated_app\<lparr>locked := True, last_freq := 389540000\<rparr>"

definition w_confirm :: world where
  "w_confirm = \<lparr>tick_src = [15000, 15010, 15015, 15024, 35000],
     rssi_src = [- 70, - 70, - 100], input_src = [], effects = [Tune 389540000, Alert]\<rparr>"

text \<open>
  A pass at tick 0 that locks on the first fixed channel, followed by a locked step that
  reads \<open>-100\<close> at tick 20000 (\<open>w_hold\<close>) or at tick 20001 (\<open>w_unlock\<close>); in \<open>w_relock\<close>
  a pass at tick 30000 finds the carrier again.
\<close>

definition w_hold :: world where
  "w_hold = \<lparr>tick_src = [0, 10, 15, 24, 20000], rssi_src = [- 70, - 70, - 100],
     input_src = [], effects = []\<rparr>"

definition w_unlock :: world where
  "w_unlock = \<lparr>tick_src = [0, 10, 15, 24, 20001], rssi_src = [- 70, - 70, - 100],
     input_src = [], effects = []\<rparr>"

definition w_relock :: world where
  "w_relock = \<lparr>tick_src = [0, 10, 15, 24, 20001, 30000, 30010, 30015, 30024],
     rssi_src = [- 70, - 70, - 100, - 70, - 70], input_src = [], effects = []\<rparr>"

text \<open>
  Three locked rounds: a re-confirmation at tick 15000, a failed check at tick 30000 and
  a re-confirmation at tick 34000.
\<close>

definition w_keep :: world where
  "w_keep = \<lparr>tick_src = [15000, 15010, 15015, 15024, 30000, 34000, 34010, 34015, 34024],
     rssi_src = [- 70, - 70, - 100, - 70, - 70], input_src = [],
     effects = [Tune 389540000, Alert]\<rparr>"

text \<open>The detector in Sweep mode.\<close>

definition sweep_app :: AppCtx where
  "sweep_app = calibrated_app\<lparr>free_scan := True\<rparr>"

text \<open>
  A pass in Fixed mode that starts at tick 1000, reads \<open>-100\<close> on the channels 0 to 15 and
  finds a carrier of \<open>-70\<close> on channel 16 (384.7125 MHz), confirmed over the slot from tick
  1997 to tick 2011; the locked step that follows, at tick 21001, reads \<open>-100\<close>.
\<close>

definition w_stale :: world where
  "w_stale = \<lparr>tick_src = [1000, 1997, 2004, 2011, 21001],
     rssi_src = replicate 16 (- 100) @ [- 70, - 70, - 100], input_src = [], effects = []\<rparr>"

text \<open>A dwell step in Sweep mode that reads \<open>-84\<close> and holds it over the slot.\<close>

definition w_sweep_step :: world where
  "w_sweep_step = \<lparr>tick_src = [1100, 1105, 1114], rssi_src = [- 84, - 84, - 95],
     input_src = [], effects = []\<rparr>"

text \<open>A locked step at tick 20001 that reads \<open>-100\<close>.\<close>

definition w_expire :: world where
  "w_expire = \<lparr>tick_src = [20001], rssi_src = [- 100], input_src = [], effects = []\<rparr>"

text \<open>A persistence slot entered at tick 100: three samples fall inside it.\<close>

definition w_slot :: world where
  "w_slot = \<lparr>tick_src = [100, 104, 109, 113, 114, 120], rssi_src = [- 70, - 71, - 90, - 60],
     input_src = [], effects = []\<rparr>"

text \<open>A key press at tick 500.\<close>

definition w_key :: world where
  "w_key = \<lparr>tick_src = [500], rssi_src = [], input_src = [], effects = []\<rparr>"

text \<open>A platform whose radio device refuses \<^verbatim>\<open>begin\<close>.\<close>

definition no_radio :: platform where
  "no_radio = flipper\<lparr>radio_begin := False\<rparr>"

text \<open>
  Whole runs of the program, calibration included (201 samples of \<open>-90\<close>).
  \<^item> \<open>w_toggle\<close>: the first pass starts in Fixed mode; Left is pressed during the frame
    delay of channel 0; the next sample is \<open>-80\<close> and persists; Back is pressed during the
    following locked step.
  \<^item> \<open>w_lock_oob\<close>: the first pass locks on 389.540 MHz in Fixed mode; Left is pressed
    during the next locked step.
  \<^item> \<open>w_scan_oob\<close>: Left is pressed during the first frame delay, so the second pass
    starts in Sweep mode with 201 channels; Left is pressed again during the frame delay
    of its channel 16.
\<close>

definition w_toggle :: world where
  "w_toggle = \<lparr>tick_src = [1000, 1062, 1100, 1105, 1114, 2000, 2062],
     rssi_src = replicate 201 (- 90) @ [- 100, - 80, - 80, - 100],
     input_src = [[InputEvent InputTypePress InputKeyLeft],
                  [InputEvent InputTypePress InputKeyBack]],
     effects = []\<rparr>"

definition w_lock_oob :: world where
  "w_lock_oob = \<lparr>tick_src = [1000, 1100, 1105, 1114, 2000, 2100, 3000],
     rssi_src = replicate 201 (- 90) @ [- 70, - 70, - 100, - 100],
     input_src = [[InputEvent InputTypePress InputKeyLeft]], effects = []\<rparr>"

definition w_scan_oob :: world where
  "w_scan_oob = \<lparr>tick_src = [1000, 1062, 3000, 4000],
     rssi_src = replicate 201 (- 90) @ replicate 34 (- 100),
     input_src = [[InputEvent InputTypePress InputKeyLeft]] @ replicate 32 [] @
       [[InputEvent InputTypePress InputKeyLeft]],
     effects = []\<rparr>"


section \<open>Properties\<close>

subsection \<open>Frame lemmas\<close>

lemma same_detection_refl: "same_detection a a"
  by (simp add: same_detection_def)

lemma same_detection_trans:
  "same_detection a b \<Longrightarrow> same_detection b c \<Longrightarrow> same_detection a c"
  by (simp add: same_detection_def)

lemma on_key_same: "same_detection app (on_key k app)"
  by (cases k) (simp_all add: same_detection_def)

lemma alerts_emit: "alerts (emit e w) = alerts w + (if e = Alert then 1 else 0)"
  by (simp add: alerts_def emit_def)

lemma furi_get_tick_Inr:
  "furi_get_tick w = Inr (t, w') \<Longrightarrow> \<exists>ts. tick_src w = t # ts \<and> w' = w\<lparr>tick_src := ts\<rparr>"
  by (auto simp: furi_get_tick_def split: list.splits)

lemma input_cb_frame:
  assumes "input_cb ticks e app w = Inr (a', w')"
  shows "same_detection app a' \<and> alerts w' = alerts w"
proof (cases e)
  case (InputEvent ty k)
  show ?thesis
  proof (cases "ty = InputTypePress")
    case False
    with assms InputEvent show ?thesis by (simp add: same_detection_refl)
  next
    case True
    with assms InputEvent obtain t w1 where
      t: "furi_get_tick w = Inr (t, w1)"
      and a: "a' = (on_key k app)\<lparr>popup_until := t + ticks POPUP_MS\<rparr>"
      and w: "w' = emit Ack w1"
      by (auto split: sum.splits)
    from furi_get_tick_Inr [OF t] have "alerts w1 = alerts w"
      by (auto simp: alerts_def)
    with w have "alerts w' = alerts w" by (simp add: alerts_emit)
    moreover have "same_detection app a'"
      using on_key_same [of app k] a by (simp add: same_detection_def)
    ultimately show ?thesis by simp
  qed
qed

lemma deliver_frame:
  "deliver ticks es app w = Inr (a', w') \<Longrightarrow> same_detection app a' \<and> alerts w' = alerts w"
proof (induction es arbitrary: app w)
  case Nil
  then show ?case by (simp add: same_detection_refl)
next
  case (Cons e es)
  from Cons.prems obtain a1 w1 where
    s: "input_cb ticks e app w = Inr (a1, w1)" and r: "deliver ticks es a1 w1 = Inr (a', w')"
    by (auto split: sum.splits)
  from input_cb_frame [OF s] Cons.IH [OF r] show ?case
    by (auto intro: same_detection_trans)
qed

lemma frame_delay_frame:
  assumes "frame_delay ticks app w = Inr (a', w')"
  shows "same_detection app a' \<and> alerts w' = alerts w"
proof (cases "input_src w")
  case Nil
  with assms show ?thesis by (simp add: frame_delay_def same_detection_refl)
next
  case (Cons b bs)
  with assms have "deliver ticks b app (w\<lparr>input_src := bs\<rparr>) = Inr (a', w')"
    by (simp add: frame_delay_def)
  from deliver_frame [OF this] show ?thesis by (simp add: alerts_def)
qed

lemma persist_effects:
  "persist ticks thr w = Inr (b, w') \<Longrightarrow> effects w' = effects w \<and> input_src w' = input_src w"
  by (auto simp: persist_def split: list.splits sum.splits)

lemma read_rssi_effects:
  "read_rssi f w = Inr (r, w') \<Longrightarrow> effects w' = effects w @ [Tune f]"
  by (auto simp: read_rssi_def get_rssi_def emit_def split: list.splits)

lemma check_effects:
  "(if c then persist ticks thr w else Inr (False, w)) = Inr (pk, w') \<Longrightarrow>
   effects w' = effects w"
  by (auto dest: persist_effects split: if_splits)


subsection \<open>One dwell step\<close>

lemma scan_step_Inr:
  assumes "scan_step ticks now i app w = Inr (brk, a', w')"
  shows "\<exists>freq r0 w1 base w2.
     channel_freq (free_scan app) i = Inr freq \<and> read_rssi freq w = Inr (r0, w1) \<and>
     channel_base app i = Inr base \<and>
     (if r0 > scan_threshold base (sens app)
      then persist ticks (scan_threshold base (sens app)) w1 else Inr (False, w1)) = Inr (brk, w2) \<and>
     (if brk
      then a' = app\<lparr>locked := True, lock_start := now, last_freq := freq\<rparr> \<and> w' = emit Alert w2
      else frame_delay ticks (app\<lparr>last_rssi := r0, last_freq := freq, last_pk := False\<rparr>) w2
             = Inr (a', w'))"
proof -
  from assms obtain freq where f: "channel_freq (free_scan app) i = Inr freq"
    by (cases "channel_freq (free_scan app) i") (simp_all add: scan_step_def)
  from assms f obtain r0 w1 where r: "read_rssi freq w = Inr (r0, w1)"
    by (cases "read_rssi freq w") (auto simp: scan_step_def)
  from assms f r obtain base where b: "channel_base app i = Inr base"
    by (cases "channel_base app i") (simp_all add: scan_step_def)
  let ?thr = "scan_threshold base (sens app)"
  from assms f r b obtain pk w2 where
    p: "(if r0 > ?thr then persist ticks ?thr w1 else Inr (False, w1)) = Inr (pk, w2)"
    by (cases "if r0 > ?thr then persist ticks ?thr w1 else Inr (False, w1)")
       (auto simp: scan_step_def Let_def)
  show ?thesis
  proof (cases pk)
    case True
    with assms f r b p have "brk" "a' = app\<lparr>locked := True, lock_start := now, last_freq := freq\<rparr>"
      "w' = emit Alert w2"
      by (simp_all add: scan_step_def Let_def)
    with f r b p True show ?thesis by auto
  next
    case False
    with assms f r b p have "\<not> brk"
      "frame_delay ticks (app\<lparr>last_rssi := r0, last_freq := freq, last_pk := False\<rparr>) w2
         = Inr (a', w')"
      by (auto simp: scan_step_def Let_def split: sum.splits)
    with f r b p False show ?thesis by auto
  qed
qed

lemma scan_step_break:
  assumes "scan_step ticks now i app w = Inr (True, a', w')"
  shows "locked a' \<and> lock_start a' = now \<and> alerts w' = alerts w + 1 \<and>
         exit a' = exit app \<and> channel_freq (free_scan app) i = Inr (last_freq a')"
proof -
  from scan_step_Inr [OF assms] obtain freq r0 w1 base w2 where
    f: "channel_freq (free_scan app) i = Inr freq" and r: "read_rssi freq w = Inr (r0, w1)"
    and p: "(if r0 > scan_threshold base (sens app)
      then persist ticks (scan_threshold base (sens app)) w1 else Inr (False, w1)) = Inr (True, w2)"
    and a: "a' = app\<lparr>locked := True, lock_start := now, last_freq := freq\<rparr>"
    and w: "w' = emit Alert w2"
    by auto
  from read_rssi_effects [OF r] check_effects [OF p] w
  have "alerts w' = alerts w + 1" by (simp add: alerts_def emit_def)
  with a f show ?thesis by simp
qed

lemma scan_step_continue:
  assumes "scan_step ticks now i app w = Inr (False, a', w')"
  shows "locked a' = locked app \<and> lock_start a' = lock_start app \<and> alerts w' = alerts w"
proof -
  from scan_step_Inr [OF assms] obtain freq r0 w1 base w2 where
    r: "read_rssi freq w = Inr (r0, w1)"
    and p: "(if r0 > scan_threshold base (sens app)
      then persist ticks (scan_threshold base (sens app)) w1 else Inr (False, w1)) = Inr (False, w2)"
    and d: "frame_delay ticks (app\<lparr>last_rssi := r0, last_freq := freq, last_pk := False\<rparr>) w2
             = Inr (a', w')"
    by auto
  from read_rssi_effects [OF r] check_effects [OF p]
  have "alerts w2 = alerts w" by (simp add: alerts_def)
  with frame_delay_frame [OF d] show ?thesis by (simp add: same_detection_def)
qed

lemma locked_step_Inr:
  assumes "locked_step ticks now app w = Inr (a', w')"
  shows "\<exists>r0 w1 base pk w2.
     read_rssi (last_freq app) w = Inr (r0, w1) \<and> locked_base app (last_freq app) = Inr base \<and>
     (if r0 > lock_threshold base (sens app)
      then persist ticks (lock_threshold base (sens app)) w1 else Inr (False, w1)) = Inr (pk, w2) \<and>
     frame_delay ticks
       ((if pk then app\<lparr>lock_start := now\<rparr>
         else if now - lock_start app > ticks LOCK_HOLD_MS then app\<lparr>locked := False\<rparr>
         else app)\<lparr>last_rssi := r0, last_freq := last_freq app, last_pk := pk\<rparr>) w2
       = Inr (a', w')"
proof -
  from assms obtain r0 w1 where r: "read_rssi (last_freq app) w = Inr (r0, w1)"
    by (cases "read_rssi (last_freq app) w") (auto simp: locked_step_def Let_def)
  from assms r obtain base where b: "locked_base app (last_freq app) = Inr base"
    by (cases "locked_base app (last_freq app)") (simp_all add: locked_step_def Let_def)
  let ?thr = "lock_threshold base (sens app)"
  from assms r b obtain pk w2 where
    p: "(if r0 > ?thr then persist ticks ?thr w1 else Inr (False, w1)) = Inr (pk, w2)"
    by (cases "if r0 > ?thr then persist ticks ?thr w1 else Inr (False, w1)")
       (auto simp: locked_step_def Let_def)
  from assms r b p have "frame_delay ticks
       ((if pk then app\<lparr>lock_start := now\<rparr>
         else if now - lock_start app > ticks LOCK_HOLD_MS then app\<lparr>locked := False\<rparr>
         else app)\<lparr>last_rssi := r0, last_freq := last_freq app, last_pk := pk\<rparr>) w2
       = Inr (a', w')"
    by (simp add: locked_step_def Let_def)
  with r b p show ?thesis by blast
qed

lemma locked_step_facts:
  assumes "locked_step ticks now app w = Inr (a', w')"
  shows "(locked a' \<longleftrightarrow> locked app \<and> (last_pk a' \<or> now - lock_start app \<le> ticks LOCK_HOLD_MS)) \<and>
         lock_start a' = (if last_pk a' then now else lock_start app) \<and>
         last_freq a' = last_freq app \<and> alerts w' = alerts w"
proof -
  from locked_step_Inr [OF assms] obtain r0 w1 base pk w2 where
    r: "read_rssi (last_freq app) w = Inr (r0, w1)"
    and p: "(if r0 > lock_threshold base (sens app)
      then persist ticks (lock_threshold base (sens app)) w1 else Inr (False, w1)) = Inr (pk, w2)"
    and d: "frame_delay ticks
       ((if pk then app\<lparr>lock_start := now\<rparr>
         else if now - lock_start app > ticks LOCK_HOLD_MS then app\<lparr>locked := False\<rparr>
         else app)\<lparr>last_rssi := r0, last_freq := last_freq app, last_pk := pk\<rparr>) w2
       = Inr (a', w')"
    by blast
  from read_rssi_effects [OF r] check_effects [OF p]
  have "alerts w2 = alerts w" by (simp add: alerts_def)
  with frame_delay_frame [OF d] show ?thesis
    by (cases pk) (auto simp: same_detection_def not_less)
qed


subsection \<open>A scanning pass\<close>

lemma scan_loop_alerts:
  "\<not> locked app \<Longrightarrow> scan_loop ticks now cnt i app w = Inr (a', w') \<Longrightarrow>
   alerts w' = alerts w + (if locked a' then 1 else 0)"
proof (induction ticks now cnt i app w rule: scan_loop.induct)
  case (1 ticks now cnt i app w)
  show ?case
  proof (cases "i < cnt \<and> \<not> exit app")
    case False
    with "1.prems" show ?thesis by (simp add: scan_loop.simps)
  next
    case True
    with "1.prems"(2) obtain brk a1 w1 where
      s: "scan_step ticks now i app w = Inr (brk, a1, w1)"
      and rest: "(if brk then Inr (a1, w1) else scan_loop ticks now cnt (i + 1) a1 w1)
                 = Inr (a', w')"
      by (cases "scan_step ticks now i app w") (auto simp: scan_loop.simps [of _ _ cnt i])
    show ?thesis
    proof (cases brk)
      case True
      with s rest scan_step_break [of ticks now i app w a1 w1] show ?thesis by simp
    next
      case False
      with s scan_step_continue [of ticks now i app w a1 w1] "1.prems"(1)
      have k: "\<not> locked a1" "alerts w1 = alerts w" by simp_all
      from False rest have "scan_loop ticks now cnt (i + 1) a1 w1 = Inr (a', w')" by simp
      from "1.IH" [OF True s refl refl False k(1) this] k(2) show ?thesis by simp
    qed
  qed
qed

lemma scan_loop_extend:
  "i \<le> k \<Longrightarrow> k \<le> cnt \<Longrightarrow> \<not> locked app \<Longrightarrow> scan_loop ticks now k i app w = Inr (am, wm) \<Longrightarrow>
   \<not> locked am \<Longrightarrow> \<not> exit am \<Longrightarrow>
   scan_loop ticks now cnt i app w = scan_loop ticks now cnt k am wm"
proof (induction ticks now k i app w rule: scan_loop.induct)
  case (1 ticks now k i app w)
  show ?case
  proof (cases "i < k \<and> \<not> exit app")
    case False
    with "1.prems"(4) have e: "am = app" "wm = w" by (simp_all add: scan_loop.simps)
    with False "1.prems"(1,6) have "i = k" by simp
    with e show ?thesis by simp
  next
    case True
    with "1.prems"(4) obtain brk a1 w1 where
      s: "scan_step ticks now i app w = Inr (brk, a1, w1)"
      and rest: "(if brk then Inr (a1, w1) else scan_loop ticks now k (i + 1) a1 w1)
                 = Inr (am, wm)"
      by (cases "scan_step ticks now i app w") (auto simp: scan_loop.simps [of _ _ k i])
    have nb: "\<not> brk"
    proof
      assume "brk"
      with s rest scan_step_break [of ticks now i app w a1 w1] "1.prems"(5) show False by simp
    qed
    with s scan_step_continue [of ticks now i app w a1 w1] "1.prems"(3)
    have l: "\<not> locked a1" by simp
    from nb rest have r: "scan_loop ticks now k (i + 1) a1 w1 = Inr (am, wm)" by simp
    from True have "i + 1 \<le> k" by simp
    from "1.IH" [OF True s refl refl nb this "1.prems"(2) l r "1.prems"(5,6)]
    have "scan_loop ticks now cnt (i + 1) a1 w1 = scan_loop ticks now cnt k am wm" by simp
    moreover from True "1.prems"(2) have "i < cnt \<and> \<not> exit app" by simp
    ultimately show ?thesis using s nb by (simp add: scan_loop.simps [of _ _ cnt i])
  qed
qed

subsection \<open>Rounds of the main loop\<close>

lemma iteration_Inr:
  assumes "iteration ticks app w = Inr (a', w')"
  shows "\<exists>now ts. tick_src w = now # ts \<and>
     (if locked app then locked_step ticks now app (w\<lparr>tick_src := ts\<rparr>)
      else scan_loop ticks now (if free_scan app then UP_NUM_CH else STATIC_CH) 0 app
             (w\<lparr>tick_src := ts\<rparr>)) = Inr (a', w')"
  using assms by (cases "tick_src w") (simp_all add: iteration_def furi_get_tick_def)

lemma iteration_alerts:
  assumes "iteration ticks app w = Inr (a', w')"
  shows "alerts w' = alerts w + (if \<not> locked app \<and> locked a' then 1 else 0)"
proof -
  from iteration_Inr [OF assms] obtain now ts where
    t: "tick_src w = now # ts"
    and b: "(if locked app then locked_step ticks now app (w\<lparr>tick_src := ts\<rparr>)
      else scan_loop ticks now (if free_scan app then UP_NUM_CH else STATIC_CH) 0 app
             (w\<lparr>tick_src := ts\<rparr>)) = Inr (a', w')"
    by blast
  have a0: "alerts (w\<lparr>tick_src := ts\<rparr>) = alerts w" by (simp add: alerts_def)
  show ?thesis
  proof (cases "locked app")
    case True
    with b have "locked_step ticks now app (w\<lparr>tick_src := ts\<rparr>) = Inr (a', w')" by simp
    from locked_step_facts [OF this] a0 True show ?thesis by simp
  next
    case False
    with b have "scan_loop ticks now (if free_scan app then UP_NUM_CH else STATIC_CH) 0 app
             (w\<lparr>tick_src := ts\<rparr>) = Inr (a', w')" by simp
    from scan_loop_alerts [OF False this] a0 False show ?thesis by simp
  qed
qed

lemma run_alerts:
  "run n ticks app w = Inr (a', w') \<Longrightarrow> alerts w' = alerts w + acquisitions n ticks app w"
proof (induction n arbitrary: app w)
  case 0
  then show ?case by simp
next
  case (Suc n)
  show ?case
  proof (cases "exit app")
    case True
    with Suc.prems show ?thesis by simp
  next
    case False
    with Suc.prems obtain a1 w1 where
      i: "iteration ticks app w = Inr (a1, w1)" and r: "run n ticks a1 w1 = Inr (a', w')"
      by (auto split: sum.splits)
    from iteration_alerts [OF i] Suc.IH [OF r] False i show ?thesis by simp
  qed
qed

subsection \<open>The persistence loop\<close>

lemma persist_loop_taken:
  "persist_loop e thr ts rs = Inr (b, ts', rs') \<Longrightarrow>
   \<exists>taken. rs = taken @ rs' \<and> (b \<longleftrightarrow> (\<forall>r\<in>set taken. thr \<le> r)) \<and>
     length taken \<le> length (takeWhile (\<lambda>t. t < e) ts) \<and>
     (b \<longrightarrow> length taken = length (takeWhile (\<lambda>t. t < e) ts)) \<and>
     (\<not> b \<longrightarrow> taken \<noteq> [] \<and> last taken < thr \<and> (\<forall>r\<in>set (butlast taken). thr \<le> r))"
proof (induction ts arbitrary: rs)
  case Nil
  then show ?case by simp
next
  case (Cons t ts)
  show ?case
  proof (cases "t < e")
    case False
    with Cons.prems have "b" "rs' = rs" by auto
    then show ?thesis using False by simp
  next
    case True
    show ?thesis
    proof (cases rs)
      case Nil
      with True Cons.prems show ?thesis by simp
    next
      case (Cons r rest)
      show ?thesis
      proof (cases "r < thr")
        case below: True
        with True Cons Cons.prems have "\<not> b" "rs' = rest" by auto
        then have "rs = [r] @ rs' \<and> (b \<longleftrightarrow> (\<forall>x\<in>set [r]. thr \<le> x)) \<and>
          length [r] \<le> length (takeWhile (\<lambda>t. t < e) (t # ts)) \<and>
          (b \<longrightarrow> length [r] = length (takeWhile (\<lambda>t. t < e) (t # ts))) \<and>
          (\<not> b \<longrightarrow> [r] \<noteq> [] \<and> last [r] < thr \<and> (\<forall>x\<in>set (butlast [r]). thr \<le> x))"
          using below Cons True by simp
        then show ?thesis by blast
      next
        case ok: False
        with True Cons Cons.prems have "persist_loop e thr ts rest = Inr (b, ts', rs')" by simp
        from Cons.IH [OF this] obtain taken where t:
          "rest = taken @ rs'" "b \<longleftrightarrow> (\<forall>r\<in>set taken. thr \<le> r)"
          "length taken \<le> length (takeWhile (\<lambda>t. t < e) ts)"
          "b \<longrightarrow> length taken = length (takeWhile (\<lambda>t. t < e) ts)"
          "\<not> b \<longrightarrow> taken \<noteq> [] \<and> last taken < thr \<and> (\<forall>r\<in>set (butlast taken). thr \<le> r)"
          by blast
        have "rs = (r # taken) @ rs' \<and> (b \<longleftrightarrow> (\<forall>x\<in>set (r # taken). thr \<le> x)) \<and>
          length (r # taken) \<le> length (takeWhile (\<lambda>t. t < e) (t # ts)) \<and>
          (b \<longrightarrow> length (r # taken) = length (takeWhile (\<lambda>t. t < e) (t # ts))) \<and>
          (\<not> b \<longrightarrow> r # taken \<noteq> [] \<and> last (r # taken) < thr \<and>
             (\<forall>x\<in>set (butlast (r # taken)). thr \<le> x))"
          using t ok True Cons by auto
        then show ?thesis by blast
      qed
    qed
  qed
qed

lemma persist_loop_returns:
  "\<exists>t\<in>set ts. \<not> t < e \<Longrightarrow> length (takeWhile (\<lambda>t. t < e) ts) \<le> length rs \<Longrightarrow>
   \<exists>b ts' rs'. persist_loop e thr ts rs = Inr (b, ts', rs')"
proof (induction ts arbitrary: rs)
  case Nil
  then show ?case by simp
next
  case (Cons t ts)
  show ?case
  proof (cases "t < e")
    case False
    then show ?thesis by auto
  next
    case True
    with Cons.prems obtain r rest where rs: "rs = r # rest" by (cases rs) auto
    from True Cons.prems rs have "\<exists>t\<in>set ts. \<not> t < e"
      "length (takeWhile (\<lambda>t. t < e) ts) \<le> length rest" by auto
    from Cons.IH [OF this] show ?thesis using True rs by auto
  qed
qed


subsection \<open>Confirmation stamps, rounding of small integers\<close>

lemma word_between_sub:
  fixes c0 t tk :: u32
  assumes "c0 \<le> t" and "t \<le> tk"
  shows "t - c0 \<le> tk - c0"
proof -
  from assms have "c0 \<le> tk" by simp
  with assms show ?thesis
    by (simp add: word_le_nat_alt unat_sub)
qed

lemma gaps_below_first:
  "gaps_below h (c0 # map fst (filter snd rl)) \<Longrightarrow> filter snd rl \<noteq> [] \<Longrightarrow>
   fst (hd (filter snd rl)) - c0 < h"
  by (cases "filter snd rl") auto

lemma locked_run_confirmed:
  "locked app \<Longrightarrow>
   sorted (lock_start app # map fst (round_log n ticks app w)) \<Longrightarrow>
   gaps_below (ticks LOCK_HOLD_MS)
     (lock_start app # map fst (filter snd (round_log n ticks app w))) \<Longrightarrow>
   round_log n ticks app w = [] \<or> snd (last (round_log n ticks app w)) \<Longrightarrow>
   m \<le> n \<Longrightarrow> run m ticks app w = Inr (am, wm) \<Longrightarrow> locked am"
proof (induction n arbitrary: app w m)
  case 0
  then show ?case by simp
next
  case (Suc n)
  show ?case
  proof (cases m)
    case 0
    with Suc.prems show ?thesis by simp
  next
    case (Suc m')
    show ?thesis
    proof (cases "exit app")
      case True
      with Suc.prems Suc show ?thesis by simp
    next
      case False
      with Suc.prems(6) Suc obtain a1 w1 where
        i: "iteration ticks app w = Inr (a1, w1)" and r: "run m' ticks a1 w1 = Inr (am, wm)"
        by (auto split: sum.splits)
      from iteration_Inr [OF i] Suc.prems(1) obtain now ts where
        t: "tick_src w = now # ts"
        and l: "locked_step ticks now app (w\<lparr>tick_src := ts\<rparr>) = Inr (a1, w1)"
        by auto
      let ?rest = "round_log n ticks a1 w1"
      have log: "round_log (Suc n) ticks app w = (now, last_pk a1) # ?rest"
        using False t i by simp
      note f = locked_step_facts [OF l]
      from Suc.prems(2) log have s0: "lock_start app \<le> now"
        and s1: "\<forall>x\<in>set (map fst ?rest). now \<le> x"
        and s2: "sorted (map fst ?rest)"
        and s3: "\<forall>x\<in>set (map fst ?rest). lock_start app \<le> x"
        by auto
      from Suc.prems(4) log have e: "?rest = [] \<and> last_pk a1 \<or> ?rest \<noteq> [] \<and> snd (last ?rest)"
        by (cases "?rest = []") auto
      then have e': "?rest = [] \<or> snd (last ?rest)" by blast
      from \<open>m \<le> Suc n\<close> Suc have mn: "m' \<le> n" by simp
      show ?thesis
      proof (cases "last_pk a1")
        case True
        with f Suc.prems(1) have l1: "locked a1" and st: "lock_start a1 = now" by simp_all
        from s1 s2 st have so: "sorted (lock_start a1 # map fst ?rest)" by simp
        from Suc.prems(3) log True st
        have g: "gaps_below (ticks LOCK_HOLD_MS) (lock_start a1 # map fst (filter snd ?rest))"
          by simp
        from Suc.IH [OF l1 so g e' mn r] show ?thesis .
      next
        case False
        with f have st: "lock_start a1 = lock_start app" by simp
        from Suc.prems(3) log False
        have g0: "gaps_below (ticks LOCK_HOLD_MS) (lock_start app # map fst (filter snd ?rest))"
          by simp
        from e False have ne: "?rest \<noteq> []" and la: "snd (last ?rest)" by auto
        then have "last ?rest \<in> set (filter snd ?rest)" by simp
        then have fne: "filter snd ?rest \<noteq> []"
          by (metis empty_iff list.set(1))
        let ?tk = "fst (hd (filter snd ?rest))"
        from gaps_below_first [OF g0 fne] have lt: "?tk - lock_start app < ticks LOCK_HOLD_MS" .
        from fne have "hd (filter snd ?rest) \<in> set (filter snd ?rest)" by (rule hd_in_set)
        then have "?tk \<in> set (map fst ?rest)" by auto
        with s1 have "now \<le> ?tk" by blast
        from word_between_sub [OF s0 this] lt
        have "now - lock_start app \<le> ticks LOCK_HOLD_MS" by simp
        with f Suc.prems(1) have l1: "locked a1" by simp
        from s2 s3 st have so: "sorted (lock_start a1 # map fst ?rest)" by simp
        from g0 st
        have g: "gaps_below (ticks LOCK_HOLD_MS) (lock_start a1 # map fst (filter snd ?rest))"
          by simp
        from Suc.IH [OF l1 so g e' mn r] show ?thesis .
      qed
    qed
  qed
qed

lemma rnd32_small_ints:
  "rnd32 8 = 8" "rnd32 5 = 5" "rnd32 1 = 1" "rnd32 2 = 2" "rnd32 3 = 3" "rnd32 4 = 4"
  by code_simp+

lemma float_of_THRESH_DB: "float_of_int THRESH_DB = 8"
  by code_simp

lemma float_of_sens: "1 \<le> s \<Longrightarrow> s \<le> 5 \<Longrightarrow> float_of_int s = of_int s"
proof -
  assume "1 \<le> s" "s \<le> 5"
  then consider "s = 1" | "s = 2" | "s = 3" | "s = 4" | "s = 5" by linarith
  then show ?thesis
    by cases (simp_all add: float_of_int_def rnd32_small_ints)
qed


section \<open>The claims\<close>

subsection \<open>C1: lock acquisition\<close>

text \<open>
  What the code does when a pass finds a carrier. Take a round of the main loop entered
  unlocked, whose clock reading at the start of the pass is \<open>now\<close>. Suppose the pass visits
  the channels \<open>0 .. k - 1\<close> without locking and without an exit request (it reaches the
  state \<open>am\<close>, \<open>wm\<close>), and channel \<open>k\<close> passes both checks. Then the round ends right there
  in the Locked state with \<open>last_freq\<close> the frequency of channel \<open>k\<close>; the step logs the
  tuning of channel \<open>k\<close> and one alert and nothing after them, and the round as a whole has
  sent exactly one alert. The stamp \<open>lock_start\<close> is the reading \<open>now\<close> taken at the start
  of the pass.
\<close>

lemma lock_acquisition:
  assumes "tick_src w = now # ts"
    and "\<not> locked app"
    and "k < (if free_scan app then UP_NUM_CH else STATIC_CH)"
    and "scan_loop ticks now k 0 app (w\<lparr>tick_src := ts\<rparr>) = Inr (am, wm)"
    and "\<not> locked am" and "\<not> exit am"
    and "channel_freq (free_scan am) k = Inr freq"
    and "read_rssi freq wm = Inr (r0, w1)"
    and "channel_base am k = Inr base"
    and "r0 > scan_threshold base (sens am)"
    and "persist ticks (scan_threshold base (sens am)) w1 = Inr (True, w2)"
  shows "iteration ticks app w =
           Inr (am\<lparr>locked := True, lock_start := now, last_freq := freq\<rparr>, emit Alert w2) \<and>
         effects (emit Alert w2) = effects wm @ [Tune freq, Alert] \<and>
         alerts (emit Alert w2) = alerts w + 1"
proof -
  let ?cnt = "if free_scan app then UP_NUM_CH else STATIC_CH"
  let ?w0 = "w\<lparr>tick_src := ts\<rparr>"
  let ?a' = "am\<lparr>locked := True, lock_start := now, last_freq := freq\<rparr>"
  have step: "scan_step ticks now k am wm = Inr (True, ?a', emit Alert w2)"
    using assms(7-11) by (simp add: scan_step_def)
  from assms(3) have "k \<le> ?cnt" by simp
  from scan_loop_extend [OF _ this assms(2) assms(4) assms(5,6)]
  have "scan_loop ticks now ?cnt 0 app ?w0 = scan_loop ticks now ?cnt k am wm" by simp
  also have "\<dots> = Inr (?a', emit Alert w2)"
    using assms(3,6) step by (simp add: scan_loop.simps [of _ _ ?cnt k])
  finally have pass: "scan_loop ticks now ?cnt 0 app ?w0 = Inr (?a', emit Alert w2)" .
  then have it: "iteration ticks app w = Inr (?a', emit Alert w2)"
    using assms(1,2) by (simp add: iteration_def furi_get_tick_def)
  from read_rssi_effects [OF assms(8)] persist_effects [OF assms(11)]
  have eff: "effects (emit Alert w2) = effects wm @ [Tune freq, Alert]"
    by (simp add: emit_def)
  from iteration_alerts [OF it] assms(2)
  have "alerts (emit Alert w2) = alerts w + 1" by simp
  with it eff show ?thesis by simp
qed

text \<open>
  An instance: the pass of \<open>w_second\<close>, with \<open>k = 1\<close>. Channel 0 (389.540 MHz) fails the
  instantaneous check, channel 1 (388.790 MHz) passes both checks.
\<close>

lemma lock_acquisition_example:
  "iteration ms_ticks calibrated_app w_second =
     Inr (calibrated_app\<lparr>last_freq := 389540000, last_rssi := - 100\<rparr>
            \<lparr>locked := True, lock_start := 1000, last_freq := 388790000\<rparr>,
          emit Alert \<lparr>tick_src = [], rssi_src = [], input_src = [],
            effects = [Tune 389540000, Tune 388790000]\<rparr>) \<and>
   alerts (emit Alert \<lparr>tick_src = [], rssi_src = [], input_src = [],
            effects = [Tune 389540000, Tune 388790000]\<rparr>) = alerts w_second + 1"
proof -
  let ?am = "calibrated_app\<lparr>last_freq := 389540000, last_rssi := - 100\<rparr>"
  let ?wm = "\<lparr>tick_src = [1100, 1105, 1114], rssi_src = [- 70, - 70], input_src = [],
         effects = [Tune 389540000]\<rparr>"
  let ?w1 = "\<lparr>tick_src = [1100, 1105, 1114], rssi_src = [- 70], input_src = [],
         effects = [Tune 389540000, Tune 388790000]\<rparr>"
  let ?w2 = "\<lparr>tick_src = [], rssi_src = [], input_src = [],
         effects = [Tune 389540000, Tune 388790000]\<rparr>"
  have h1: "tick_src w_second = 1000 # [1100, 1105, 1114]" by (simp add: w_second_def)
  have h2: "\<not> locked calibrated_app" by (simp add: calibrated_app_def initial_app_def)
  have h3: "1 < (if free_scan calibrated_app then UP_NUM_CH else STATIC_CH)"
    by (simp add: calibrated_app_def initial_app_def STATIC_CH_def STATIC_FREQS_def)
  have h4: "scan_loop ms_ticks 1000 1 0 calibrated_app (w_second\<lparr>tick_src := [1100, 1105, 1114]\<rparr>)
      = Inr (?am, ?wm)"
    by code_simp
  have h5: "\<not> locked ?am" and h6: "\<not> exit ?am"
    by (simp_all add: calibrated_app_def initial_app_def)
  have h7: "channel_freq (free_scan ?am) 1 = Inr 388790000" by code_simp
  have h8: "read_rssi 388790000 ?wm = Inr (- 70, ?w1)" by code_simp
  have h9: "channel_base ?am 1 = Inr (- 80)" by code_simp
  have h10: "- 70 > scan_threshold (- 80) (sens ?am)" by code_simp
  have h11: "persist ms_ticks (scan_threshold (- 80) (sens ?am)) ?w1 = Inr (True, ?w2)"
    by code_simp
  from lock_acquisition [OF h1 h2 h3 h4 h5 h6 h7 h8 h9 h10 h11]
  show ?thesis by simp
qed

text \<open>
  C1 fails on the code in one point: \<open>lastConfirmedAt\<close> is not set to the current time.
  Line 258 stores \<open>now\<close>, which line 229 read before the pass began, where the locked
  branch (line 239) stamps the dwell step that confirms. In the pass of \<open>w_stale\<close>, begun
  at tick 1000 in Fixed mode, channel 16 is confirmed over the slot from tick 1997 to
  tick 2011, and \<open>lock_start\<close> becomes 1000. The locked step at tick 21001 reads \<open>-100\<close>
  and drops the lock, 18990 ticks after the confirmation, against a hold time of 20000.
\<close>

theorem stale_lock_stamp:
  "map_sum id (\<lambda>(a, w). (locked a, lock_start a, last_freq a, tick_src w))
     (run 1 ms_ticks calibrated_app w_stale) = Inr (True, 1000, 384712500, [21001]) \<and>
   map_sum id (\<lambda>(a, w). (locked a, lock_start a, last_freq a, tick_src w))
     (run 2 ms_ticks calibrated_app w_stale) = Inr (False, 1000, 384712500, []) \<and>
   tick_src w_stale = [1000, 1997, 2004, 2011, 21001] \<and>
   (21001 :: u32) - 2011 < ms_ticks LOCK_HOLD_MS"
  by code_simp

subsection \<open>C2: lock retention and expiry\<close>

text \<open>
  C2, as amended. In a round of the main loop entered in the Locked state with clock
  reading \<open>now\<close>, the machine is still locked afterwards exactly if the step re-confirmed
  the carrier (\<open>last_pk\<close>) or \<open>now - lock_start\<close>, taken modulo \<open>2^32\<close>, is at most
  \<open>ticks LOCK_HOLD_MS\<close>: it unlocks only on an unconfirmed step strictly later than the
  hold time, and a confirmed step moves \<open>lock_start\<close> to \<open>now\<close>. Expiry does happen: a
  locked round with no key event whose sample \<open>r0\<close> is not above the locked threshold,
  taken strictly later than the hold time, returns in the Scanning state. Retention: take
  an execution that starts locked, whose clock readings do not decrease from the stamp
  \<open>lock_start\<close> on, in which successive confirmation stamps (the stamp held on entry, then
  the reading of every re-confirming round) are less than \<open>ticks LOCK_HOLD_MS\<close> apart and
  every unconfirmed round is followed by a confirmation; the machine is locked after
  every one of its rounds. Which stamp an acquisition writes is the matter of C1.
\<close>

theorem lock_hold:
  "(locked app \<and> tick_src w = now # ts \<and> iteration ticks app w = Inr (a', w') \<longrightarrow>
      (locked a' \<longleftrightarrow> last_pk a' \<or> now - lock_start app \<le> ticks LOCK_HOLD_MS) \<and>
      lock_start a' = (if last_pk a' then now else lock_start app)) \<and>
   (locked app \<and>
    sorted (lock_start app # map fst (round_log n ticks app w)) \<and>
    gaps_below (ticks LOCK_HOLD_MS)
      (lock_start app # map fst (filter snd (round_log n ticks app w))) \<and>
    (round_log n ticks app w = [] \<or> snd (last (round_log n ticks app w))) \<and>
    m \<le> n \<and> run m ticks app w = Inr (a'', w'') \<longrightarrow>
    locked a'') \<and>
   (locked app \<and> tick_src w = now # ts \<and> rssi_src w = r0 # rs \<and> input_src w = [] \<and>
    locked_base app (last_freq app) = Inr base \<and> r0 \<le> lock_threshold base (sens app) \<and>
    now - lock_start app > ticks LOCK_HOLD_MS \<longrightarrow>
    iteration ticks app w =
      Inr (app\<lparr>locked := False, last_rssi := r0, last_pk := False\<rparr>,
           w\<lparr>tick_src := ts, rssi_src := rs, effects := effects w @ [Tune (last_freq app)]\<rparr>))"
proof (intro conjI impI)
  assume h: "locked app \<and> tick_src w = now # ts \<and> iteration ticks app w = Inr (a', w')"
  from iteration_Inr [of ticks app w a' w'] h
  have "locked_step ticks now app (w\<lparr>tick_src := ts\<rparr>) = Inr (a', w')" by auto
  from locked_step_facts [OF this] h
  show "locked a' \<longleftrightarrow> last_pk a' \<or> now - lock_start app \<le> ticks LOCK_HOLD_MS"
    and "lock_start a' = (if last_pk a' then now else lock_start app)"
    by simp_all
next
  assume "locked app \<and>
    sorted (lock_start app # map fst (round_log n ticks app w)) \<and>
    gaps_below (ticks LOCK_HOLD_MS)
      (lock_start app # map fst (filter snd (round_log n ticks app w))) \<and>
    (round_log n ticks app w = [] \<or> snd (last (round_log n ticks app w))) \<and>
    m \<le> n \<and> run m ticks app w = Inr (a'', w'')"
  then show "locked a''"
    using locked_run_confirmed [of app n ticks w m a'' w''] by blast
next
  assume "locked app \<and> tick_src w = now # ts \<and> rssi_src w = r0 # rs \<and> input_src w = [] \<and>
    locked_base app (last_freq app) = Inr base \<and> r0 \<le> lock_threshold base (sens app) \<and>
    now - lock_start app > ticks LOCK_HOLD_MS"
  then show "iteration ticks app w =
      Inr (app\<lparr>locked := False, last_rssi := r0, last_pk := False\<rparr>,
           w\<lparr>tick_src := ts, rssi_src := rs, effects := effects w @ [Tune (last_freq app)]\<rparr>)"
    by (simp add: iteration_def furi_get_tick_def locked_step_def read_rssi_def get_rssi_def
          emit_def frame_delay_def)
qed

text \<open>
  Witness for C2. In \<open>w_confirm\<close> the locked round at tick 15000 re-confirms and moves
  \<open>lock_start\<close> to 15000. In \<open>w_keep\<close> the rounds at ticks 15000, 30000 and 34000 confirm,
  fail and confirm, with stamps 0, 15000 and 34000 less than 20000 apart: the machine is
  locked after all three. In \<open>w_expire\<close> the round at tick 20001 fails 20001 ticks after
  \<open>lock_start = 0\<close> and unlocks.
\<close>

theorem lock_hold_witness:
  "iteration ms_ticks locked_app w_confirm =
     Inr (locked_app\<lparr>lock_start := 15000, last_rssi := - 70, last_pk := True\<rparr>,
          \<lparr>tick_src = [35000], rssi_src = [- 100], input_src = [],
           effects = [Tune 389540000, Alert, Tune 389540000]\<rparr>) \<and>
   round_log 3 ms_ticks locked_app w_keep = [(15000, True), (30000, False), (34000, True)] \<and>
   run 3 ms_ticks locked_app w_keep =
     Inr (locked_app\<lparr>lock_start := 34000, last_rssi := - 70, last_pk := True\<rparr>,
          \<lparr>tick_src = [], rssi_src = [], input_src = [],
           effects = [Tune 389540000, Alert, Tune 389540000, Tune 389540000,
                      Tune 389540000]\<rparr>) \<and>
   locked (locked_app\<lparr>lock_start := 34000, last_rssi := - 70, last_pk := True\<rparr>) \<and>
   iteration ms_ticks locked_app w_expire =
     Inr (locked_app\<lparr>locked := False, last_rssi := - 100, last_pk := False\<rparr>,
          \<lparr>tick_src = [], rssi_src = [], input_src = [], effects = [Tune 389540000]\<rparr>)"
proof -
  let ?A1 = "locked_app\<lparr>lock_start := 15000, last_rssi := - 70, last_pk := True\<rparr>"
  let ?W1 = "\<lparr>tick_src = [35000], rssi_src = [- 100], input_src = [],
           effects = [Tune 389540000, Alert, Tune 389540000]\<rparr>"
  let ?A3 = "locked_app\<lparr>lock_start := 34000, last_rssi := - 70, last_pk := True\<rparr>"
  let ?W3 = "\<lparr>tick_src = [], rssi_src = [], input_src = [],
           effects = [Tune 389540000, Alert, Tune 389540000, Tune 389540000,
                      Tune 389540000]\<rparr>"
  have l: "locked locked_app" by (simp add: locked_app_def)
  have t: "tick_src w_confirm = 15000 # [15010, 15015, 15024, 35000]"
    by (simp add: w_confirm_def)
  have i0: "iteration ms_ticks locked_app w_confirm = Inr (?A1, ?W1)" by code_simp
  from lock_hold [of locked_app w_confirm 15000 "[15010, 15015, 15024, 35000]" ms_ticks
      ?A1 ?W1] l t i0
  have c1: "locked ?A1 \<longleftrightarrow> last_pk ?A1 \<or> 15000 - lock_start locked_app \<le> ms_ticks LOCK_HOLD_MS"
    by blast
  have rl: "round_log 3 ms_ticks locked_app w_keep =
      [(15000, True), (30000, False), (34000, True)]" by code_simp
  have e3: "run 3 ms_ticks locked_app w_keep = Inr (?A3, ?W3)" by code_simp
  have ls: "lock_start locked_app = 0"
    by (simp add: locked_app_def calibrated_app_def initial_app_def)
  have so: "sorted (lock_start locked_app # map fst (round_log 3 ms_ticks locked_app w_keep))"
    unfolding rl ls by simp
  have ga: "gaps_below (ms_ticks LOCK_HOLD_MS)
      (lock_start locked_app # map fst (filter snd (round_log 3 ms_ticks locked_app w_keep)))"
    unfolding rl ls by (simp add: ms_ticks_def LOCK_HOLD_MS_def)
  have la: "round_log 3 ms_ticks locked_app w_keep = [] \<or>
      snd (last (round_log 3 ms_ticks locked_app w_keep))"
    unfolding rl by simp
  from lock_hold [of locked_app w_keep _ _ ms_ticks _ _ 3 3 ?A3 ?W3] l so ga la e3
  have stay: "locked ?A3" by blast
  have x1: "tick_src w_expire = 20001 # []" and x2: "rssi_src w_expire = - 100 # []"
    and x3: "input_src w_expire = []"
    by (simp_all add: w_expire_def)
  have x4: "locked_base locked_app (last_freq locked_app) = Inr (- 80)" by code_simp
  have x5: "- 100 \<le> lock_threshold (- 80) (sens locked_app)" by code_simp
  have x6: "(20001 :: u32) - lock_start locked_app > ms_ticks LOCK_HOLD_MS" by code_simp
  from lock_hold [of locked_app w_expire 20001 "[]" ms_ticks _ _ _ _ _ _ "- 100" "[]" "- 80"]
    l x1 x2 x3 x4 x5 x6
  have "iteration ms_ticks locked_app w_expire =
      Inr (locked_app\<lparr>locked := False, last_rssi := - 100, last_pk := False\<rparr>,
           w_expire\<lparr>tick_src := [], rssi_src := [],
             effects := effects w_expire @ [Tune (last_freq locked_app)]\<rparr>)"
    by blast
  then have "iteration ms_ticks locked_app w_expire =
     Inr (locked_app\<lparr>locked := False, last_rssi := - 100, last_pk := False\<rparr>,
          \<lparr>tick_src = [], rssi_src = [], input_src = [], effects = [Tune 389540000]\<rparr>)"
    by (simp add: w_expire_def locked_app_def)
  with stay i0 rl e3 show ?thesis by simp
qed

text \<open>
  Counterexample to C2 as stated (a duration \<open>\<ge> LOCK_HOLD_DURATION\<close> without confirmation
  unlocks): in \<open>w_hold\<close> the lock is taken with \<open>lock_start = 0\<close>; the next locked step
  runs at tick 20000, exactly \<open>LOCK_HOLD_MS\<close> later, and does not confirm; the machine is
  still locked.
\<close>

theorem lock_hold_counterexample:
  "run 2 ms_ticks calibrated_app w_hold =
     Inr (calibrated_app\<lparr>locked := True, lock_start := 0, last_freq := 389540000,
            last_rssi := - 100, last_pk := False\<rparr>,
          \<lparr>tick_src = [], rssi_src = [], input_src = [],
           effects = [Tune 389540000, Alert, Tune 389540000]\<rparr>) \<and>
   tick_src w_hold = [0, 10, 15, 24, 20000] \<and>
   (20000 :: u32) - 0 \<ge> ms_ticks LOCK_HOLD_MS"
  by code_simp

subsection \<open>C3: thresholds\<close>

text \<open>
  C3, as amended. For every baseline \<open>b\<close> and every sensitivity \<open>s\<close> in \<open>1 .. 5\<close> the
  non-locked threshold is \<open>(b + 8) - s\<close> computed left to right in single precision, each
  of the two results rounded to binary32, and the locked threshold is the non-locked
  threshold minus 5, rounded to binary32. Where \<open>b + 8\<close> and \<open>b + 8 - s\<close> are binary32
  numbers the non-locked threshold is exactly \<open>b + 8 - s\<close>, and where the non-locked
  threshold minus 5 is a binary32 number the locked threshold is exactly that. These are
  the thresholds the dwell steps apply: a scanning step at index \<open>i\<close> locks exactly if its
  sample exceeds the non-locked threshold of \<^verbatim>\<open>baseline[i]\<close> (Sweep mode) or of \<open>-80\<close>
  (Fixed mode) and \<open>persist\<close> holds at that threshold; a locked step confirms exactly if
  its sample exceeds the locked threshold of the baseline looked up for the locked
  frequency (Sweep mode) or of \<open>-80\<close> (Fixed mode) and \<open>persist\<close> holds at that threshold.
\<close>

theorem step_thresholds:
  "(1 \<le> s \<and> s \<le> 5 \<longrightarrow>
      scan_threshold b s = rnd32 (rnd32 (b + 8) - of_int s) \<and>
      lock_threshold b s = rnd32 (scan_threshold b s - 5)) \<and>
   (1 \<le> s \<and> s \<le> 5 \<and> rnd32 (b + 8) = b + 8 \<and> rnd32 (b + 8 - of_int s) = b + 8 - of_int s \<longrightarrow>
      scan_threshold b s = b + 8 - of_int s) \<and>
   (1 \<le> s \<and> s \<le> 5 \<and> rnd32 (scan_threshold b s - 5) = scan_threshold b s - 5 \<longrightarrow>
      lock_threshold b s = scan_threshold b s - 5) \<and>
   (scan_step ticks now i app w = Inr (brk, a', w') \<longrightarrow>
      (\<exists>freq r0 w1.
         channel_freq (free_scan app) i = Inr freq \<and> read_rssi freq w = Inr (r0, w1) \<and>
         (free_scan app \<longrightarrow> i < length (baseline app)) \<and>
         (brk \<longleftrightarrow>
            r0 > scan_threshold (if free_scan app then baseline app ! i else MIN_RSSI_DBM)
                   (sens app) \<and>
            (\<exists>w2. persist ticks
                    (scan_threshold (if free_scan app then baseline app ! i else MIN_RSSI_DBM)
                       (sens app)) w1 = Inr (True, w2))))) \<and>
   (locked_step ticks now app v = Inr (c', v') \<longrightarrow>
      (\<exists>r0 v1.
         read_rssi (last_freq app) v = Inr (r0, v1) \<and>
         (free_scan app \<longrightarrow>
            unat ((last_freq app - UP_START_FREQ) div FREQ_STEP) < length (baseline app)) \<and>
         (last_pk c' \<longleftrightarrow>
            r0 > lock_threshold
                   (if free_scan app
                    then baseline app ! unat ((last_freq app - UP_START_FREQ) div FREQ_STEP)
                    else MIN_RSSI_DBM) (sens app) \<and>
            (\<exists>v2. persist ticks
                    (lock_threshold
                       (if free_scan app
                        then baseline app ! unat ((last_freq app - UP_START_FREQ) div FREQ_STEP)
                        else MIN_RSSI_DBM) (sens app)) v1 = Inr (True, v2)))))"
proof (intro conjI impI)
  assume s: "1 \<le> s \<and> s \<le> 5"
  then have fs: "float_of_int s = of_int s" by (simp add: float_of_sens)
  show st: "scan_threshold b s = rnd32 (rnd32 (b + 8) - of_int s)"
    by (simp add: scan_threshold_def fadd_def fsub_def fs float_of_THRESH_DB)
  show "lock_threshold b s = rnd32 (scan_threshold b s - 5)"
    by (simp add: lock_threshold_def scan_threshold_def fsub_def LOCK_RSSI_DROP_def)
next
  assume h: "1 \<le> s \<and> s \<le> 5 \<and> rnd32 (b + 8) = b + 8 \<and>
    rnd32 (b + 8 - of_int s) = b + 8 - of_int s"
  then have fs: "float_of_int s = of_int s" by (simp add: float_of_sens)
  show "scan_threshold b s = b + 8 - of_int s"
    using h
    by (simp add: scan_threshold_def fadd_def fsub_def fs float_of_THRESH_DB)
next
  assume h: "1 \<le> s \<and> s \<le> 5 \<and> rnd32 (scan_threshold b s - 5) = scan_threshold b s - 5"
  have "lock_threshold b s = rnd32 (scan_threshold b s - 5)"
    by (simp add: lock_threshold_def scan_threshold_def fsub_def LOCK_RSSI_DROP_def)
  with h show "lock_threshold b s = scan_threshold b s - 5" by simp
next
  assume h: "scan_step ticks now i app w = Inr (brk, a', w')"
  from scan_step_Inr [OF h] obtain freq r0 w1 base w2 where
    f: "channel_freq (free_scan app) i = Inr freq" and r: "read_rssi freq w = Inr (r0, w1)"
    and b: "channel_base app i = Inr base"
    and p: "(if r0 > scan_threshold base (sens app)
      then persist ticks (scan_threshold base (sens app)) w1 else Inr (False, w1)) = Inr (brk, w2)"
    by blast
  let ?base = "if free_scan app then baseline app ! i else MIN_RSSI_DBM"
  from b have inb: "free_scan app \<longrightarrow> i < length (baseline app)" and be: "base = ?base"
    by (auto simp: channel_base_def index_def split: if_splits)
  from p have "brk \<longleftrightarrow> r0 > scan_threshold base (sens app) \<and>
      (\<exists>w2. persist ticks (scan_threshold base (sens app)) w1 = Inr (True, w2))"
    by (auto split: if_splits)
  with f r inb be
  show "\<exists>freq r0 w1.
         channel_freq (free_scan app) i = Inr freq \<and> read_rssi freq w = Inr (r0, w1) \<and>
         (free_scan app \<longrightarrow> i < length (baseline app)) \<and>
         (brk \<longleftrightarrow> r0 > scan_threshold ?base (sens app) \<and>
            (\<exists>w2. persist ticks (scan_threshold ?base (sens app)) w1 = Inr (True, w2)))"
    by blast
next
  assume h: "locked_step ticks now app v = Inr (c', v')"
  from locked_step_Inr [OF h] obtain r0 v1 base pk v2 where
    r: "read_rssi (last_freq app) v = Inr (r0, v1)"
    and b: "locked_base app (last_freq app) = Inr base"
    and p: "(if r0 > lock_threshold base (sens app)
      then persist ticks (lock_threshold base (sens app)) v1 else Inr (False, v1)) = Inr (pk, v2)"
    and d: "frame_delay ticks
       ((if pk then app\<lparr>lock_start := now\<rparr>
         else if now - lock_start app > ticks LOCK_HOLD_MS then app\<lparr>locked := False\<rparr>
         else app)\<lparr>last_rssi := r0, last_freq := last_freq app, last_pk := pk\<rparr>) v2
       = Inr (c', v')"
    by blast
  let ?j = "unat ((last_freq app - UP_START_FREQ) div FREQ_STEP)"
  let ?base = "if free_scan app then baseline app ! ?j else MIN_RSSI_DBM"
  from b have inb: "free_scan app \<longrightarrow> ?j < length (baseline app)" and be: "base = ?base"
    by (auto simp: locked_base_def index_def split: if_splits)
  from frame_delay_frame [OF d] have "last_pk c' = pk" by (simp add: same_detection_def)
  with p have "last_pk c' \<longleftrightarrow> r0 > lock_threshold base (sens app) \<and>
      (\<exists>v2. persist ticks (lock_threshold base (sens app)) v1 = Inr (True, v2))"
    by (auto split: if_splits)
  with r inb be
  show "\<exists>r0 v1.
         read_rssi (last_freq app) v = Inr (r0, v1) \<and>
         (free_scan app \<longrightarrow> ?j < length (baseline app)) \<and>
         (last_pk c' \<longleftrightarrow> r0 > lock_threshold ?base (sens app) \<and>
            (\<exists>v2. persist ticks (lock_threshold ?base (sens app)) v1 = Inr (True, v2)))"
    by blast
qed

text \<open>
  Witness for C3: baseline \<open>-90\<close> and sensitivity 3 give the thresholds \<open>-85\<close> and \<open>-90\<close>,
  all sums being binary32 numbers. In Sweep mode the step on channel 1 (baseline \<open>-90\<close>)
  with the sample \<open>-84\<close> passes the threshold \<open>-85\<close> and locks; the locked step that reads
  \<open>-95\<close> is below the locked threshold \<open>-90\<close> and does not confirm.
\<close>

theorem step_thresholds_witness:
  "scan_threshold (- 90) 3 = - 85 \<and> lock_threshold (- 90) 3 = - 90 \<and>
   scan_step ms_ticks 1000 1 sweep_app w_sweep_step =
     Inr (True, sweep_app\<lparr>locked := True, lock_start := 1000, last_freq := 380025000\<rparr>,
          \<lparr>tick_src = [], rssi_src = [- 95], input_src = [],
           effects = [Tune 380025000, Alert]\<rparr>) \<and>
   locked_step ms_ticks 2000
       (sweep_app\<lparr>locked := True, lock_start := 1000, last_freq := 380025000\<rparr>)
       \<lparr>tick_src = [], rssi_src = [- 95], input_src = [], effects = [Tune 380025000, Alert]\<rparr> =
     Inr (sweep_app\<lparr>locked := True, lock_start := 1000, last_freq := 380025000,
            last_rssi := - 95\<rparr>,
          \<lparr>tick_src = [], rssi_src = [], input_src = [],
           effects = [Tune 380025000, Alert, Tune 380025000]\<rparr>)"
proof -
  let ?A = "sweep_app\<lparr>locked := True, lock_start := 1000, last_freq := 380025000\<rparr>"
  let ?W = "\<lparr>tick_src = [], rssi_src = [- 95], input_src = [],
           effects = [Tune 380025000, Alert]\<rparr>"
  let ?A' = "sweep_app\<lparr>locked := True, lock_start := 1000, last_freq := 380025000,
            last_rssi := - 95\<rparr>"
  let ?W' = "\<lparr>tick_src = [], rssi_src = [], input_src = [],
           effects = [Tune 380025000, Alert, Tune 380025000]\<rparr>"
  have s: "(1::int) \<le> 3 \<and> (3::int) \<le> 5" by simp
  have r1: "rnd32 (- 90 + 8) = - 90 + 8" and r2: "rnd32 (- 90 + 8 - of_int 3) = - 90 + 8 - of_int 3"
    by code_simp+
  have st: "scan_step ms_ticks 1000 1 sweep_app w_sweep_step = Inr (True, ?A, ?W)" by code_simp
  have lt: "locked_step ms_ticks 2000 ?A ?W = Inr (?A', ?W')" by code_simp
  note th = step_thresholds [of 3 "- 90" ms_ticks 1000 1 sweep_app w_sweep_step True ?A ?W]
  from th s r1 r2 have a: "scan_threshold (- 90) 3 = - 90 + 8 - of_int 3" by blast
  then have a': "scan_threshold (- 90) 3 = - 85" by simp
  have r3: "rnd32 (scan_threshold (- 90) 3 - 5) = scan_threshold (- 90) 3 - 5"
    unfolding a' by code_simp
  from th s r3 have "lock_threshold (- 90) 3 = scan_threshold (- 90) 3 - 5" by blast
  with a' have b': "lock_threshold (- 90) 3 = - 90" by simp
  from a' b' st lt show ?thesis by simp
qed

text \<open>
  Counterexample to C3 as stated (the threshold equals \<open>b + MARGIN - s\<close>, the locked one
  that minus 5): for the baseline \<open>2^24\<close> and sensitivity 3 the code computes 16777220
  where \<open>b + 8 - 3\<close> is 16777221, which is no binary32 number; for the baseline
  \<open>-16500955 / 2^19\<close> (about \<open>-31.47\<close>) and sensitivity 4 the non-locked threshold is
  exact, and the locked threshold is \<open>-17025244 / 2^19\<close> where the non-locked threshold
  minus 5 is \<open>-17025243 / 2^19\<close>.
\<close>

theorem threshold_rounding_counterexample:
  "scan_threshold 16777216 3 = 16777220 \<and> (16777216 :: real) + 8 - 3 = 16777221 \<and>
   rnd32 (- 16500955 / 524288) = - 16500955 / 524288 \<and>
   scan_threshold (- 16500955 / 524288) 4 = - 14403803 / 524288 \<and>
   lock_threshold (- 16500955 / 524288) 4 = - 17025244 / 524288 \<and>
   (- 14403803 / 524288 :: real) - 5 = - 17025243 / 524288"
  by code_simp

subsection \<open>C4: persist\<close>

text \<open>
  C4. Let \<open>persist\<close> start at clock reading \<open>t0\<close>, and let the clock leave the slot
  \<open>t0 + ticks SLOT_MS\<close> at some later reading while the radio still delivers samples. Then
  \<open>persist\<close> returns, having taken a prefix \<open>taken\<close> of the samples. It returns true
  exactly if every sample taken is at or above the threshold, and then it took one sample
  per clock reading inside the slot; it returns false exactly if the last sample taken is
  strictly below the threshold and all samples before it are not: the first sample below
  the threshold ends the call. It never takes more samples than the clock gave readings
  inside the slot, so the result is true exactly if every sample of the slot is at or
  above the threshold.
\<close>

theorem persist_spec:
  assumes "tick_src w = t0 # ts"
    and "\<exists>t\<in>set ts. \<not> t < t0 + ticks SLOT_MS"
    and "length (takeWhile (\<lambda>t. t < t0 + ticks SLOT_MS) ts) \<le> length (rssi_src w)"
  shows "\<exists>b w' taken. persist ticks thr w = Inr (b, w') \<and>
      rssi_src w = taken @ rssi_src w' \<and>
      (b \<longleftrightarrow> (\<forall>r\<in>set taken. thr \<le> r)) \<and>
      length taken \<le> length (takeWhile (\<lambda>t. t < t0 + ticks SLOT_MS) ts) \<and>
      (b \<longleftrightarrow> (\<forall>r\<in>set (take (length (takeWhile (\<lambda>t. t < t0 + ticks SLOT_MS) ts))
                           (rssi_src w)). thr \<le> r)) \<and>
      (b \<longrightarrow> length taken = length (takeWhile (\<lambda>t. t < t0 + ticks SLOT_MS) ts)) \<and>
      (\<not> b \<longrightarrow> taken \<noteq> [] \<and> last taken < thr \<and> (\<forall>r\<in>set (butlast taken). thr \<le> r))"
proof -
  let ?k = "length (takeWhile (\<lambda>t. t < t0 + ticks SLOT_MS) ts)"
  from persist_loop_returns [OF assms(2,3)] obtain b ts' rs' where
    r: "persist_loop (t0 + ticks SLOT_MS) thr ts (rssi_src w) = Inr (b, ts', rs')"
    by blast
  from persist_loop_taken [OF r] obtain taken where
    t1: "rssi_src w = taken @ rs'" and t2: "b \<longleftrightarrow> (\<forall>r\<in>set taken. thr \<le> r)"
    and t3: "length taken \<le> ?k"
    and t4: "b \<longrightarrow> length taken = ?k"
    and t5: "\<not> b \<longrightarrow> taken \<noteq> [] \<and> last taken < thr \<and> (\<forall>r\<in>set (butlast taken). thr \<le> r)"
    by blast
  from t1 t3 have "take ?k (rssi_src w) = taken @ take (?k - length taken) rs'"
    by simp
  then have sub: "set taken \<subseteq> set (take ?k (rssi_src w))"
    and full: "length taken = ?k \<Longrightarrow> take ?k (rssi_src w) = taken"
    by simp_all
  have t6: "b \<longleftrightarrow> (\<forall>r\<in>set (take ?k (rssi_src w)). thr \<le> r)"
  proof
    assume b
    with t4 full have "take ?k (rssi_src w) = taken" by simp
    with t2 \<open>b\<close> show "\<forall>r\<in>set (take ?k (rssi_src w)). thr \<le> r" by simp
  next
    assume "\<forall>r\<in>set (take ?k (rssi_src w)). thr \<le> r"
    with sub have "\<forall>r\<in>set taken. thr \<le> r" by blast
    with t2 show b by simp
  qed
  let ?w' = "w\<lparr>tick_src := ts', rssi_src := rs'\<rparr>"
  have p: "persist ticks thr w = Inr (b, ?w')"
    using assms(1) r by (simp add: persist_def)
  have t1': "rssi_src w = taken @ rssi_src ?w'"
    using t1 by simp
  from p t1' t2 t3 t6 t4 t5 show ?thesis
    by (intro exI [of _ b] exI [of _ ?w'] exI [of _ taken] conjI)
qed

text \<open>
  Witness for C4: the slot of \<open>w_slot\<close> runs from tick 100 to tick 114 and holds the
  samples \<open>-70\<close>, \<open>-71\<close>, \<open>-90\<close>. With threshold \<open>-75\<close> the third sample ends the call with
  false; with threshold \<open>-95\<close> all three are taken and the call returns true at tick 114,
  leaving the sample \<open>-60\<close> unread.
\<close>

theorem persist_spec_witness:
  "persist ms_ticks (- 75) w_slot =
     Inr (False, w_slot\<lparr>tick_src := [114, 120], rssi_src := [- 60]\<rparr>) \<and>
   persist ms_ticks (- 95) w_slot =
     Inr (True, w_slot\<lparr>tick_src := [120], rssi_src := [- 60]\<rparr>)"
proof -
  have h1: "tick_src w_slot = 100 # [104, 109, 113, 114, 120]" by (simp add: w_slot_def)
  have h2: "\<exists>t\<in>set [104, 109, 113, 114, 120]. \<not> t < (100::u32) + ms_ticks SLOT_MS"
    by (simp add: SLOT_MS_def ms_ticks_def)
  have h3: "length (takeWhile (\<lambda>t. t < (100::u32) + ms_ticks SLOT_MS) [104, 109, 113, 114, 120])
      \<le> length (rssi_src w_slot)"
    by (simp add: SLOT_MS_def w_slot_def ms_ticks_def)
  note persist_spec [of w_slot 100 "[104, 109, 113, 114, 120]" ms_ticks "- 75", OF h1 h2 h3]
  then show ?thesis
    by (simp add: persist_def w_slot_def SLOT_MS_def ms_ticks_def)
qed

subsection \<open>C5: scan-mode toggle during a pass\<close>

text \<open>
  C5 fails on the code. In the run of \<open>w_toggle\<close> the first pass starts in Fixed mode
  (17 channels). Left is pressed during the frame delay of channel 0, and the second dwell
  step of the same pass tunes to 380.025 MHz, channel 1 of the sweep list, with the
  calibrated baseline \<open>-90\<close>, where the fixed list has 388.790 MHz; the sample \<open>-80\<close> locks
  there. After the 206 log entries of start-up and calibration the log reads as shown.
  Line 249 fixes the length of the pass when it starts, lines 251 and 253 read the flag
  again at every dwell step.
\<close>

theorem toggle_changes_pass:
  "map_sum id (\<lambda>(rc, w). (rc, drop 206 (effects w))) (python_detector_app 2 flipper w_toggle) =
     Inr (0, [Tune 389540000, Ack, Tune 380025000, Alert, Tune 380025000, Ack,
              ViewPortRemove, RadioEnd, RegistryDeinit,
              RecordClose ''gui'', RecordClose ''notification'']) \<and>
   STATIC_FREQS ! 1 = 388790000 \<and>
   channel_freq True 1 = Inr 380025000"
  by code_simp

subsection \<open>C6: array indices\<close>

text \<open>
  C6 fails on the code, twice. In the run of \<open>w_lock_oob\<close> the lock is taken on
  389.540 MHz in Fixed mode and the mode is then switched to Sweep: the next locked step
  reads \<^verbatim>\<open>baseline[381]\<close> of 201 entries. In the run of \<open>w_scan_oob\<close> a pass starts in Sweep
  mode with 201 channels and the mode is switched to Fixed during channel 16: the next
  dwell step reads \<^verbatim>\<open>STATIC_FREQS[17]\<close> of 17 entries.
\<close>

theorem index_out_of_bounds:
  "python_detector_app 3 flipper w_lock_oob = Inl (IndexOutOfBounds 381 201) \<and>
   python_detector_app 2 flipper w_scan_oob = Inl (IndexOutOfBounds 17 17)"
  by code_simp

subsection \<open>C7: one alert per lock acquisition\<close>

text \<open>
  C7. A round of the main loop sends one alert if it is entered unlocked and left locked,
  and none otherwise: none in a locked round, whether it re-confirms, merely fails or
  unlocks, and none in a pass that finds nothing. Hence after any \<open>n\<close> rounds the number of
  alerts sent is the number of Scanning-to-Locked transitions among them.
\<close>

theorem alert_once_per_acquisition:
  "(iteration ticks app w = Inr (a', w') \<longrightarrow>
      alerts w' = alerts w + (if \<not> locked app \<and> locked a' then 1 else 0)) \<and>
   (run n ticks app w = Inr (a'', w'') \<longrightarrow>
      alerts w'' = alerts w + acquisitions n ticks app w)"
  using iteration_alerts [of ticks app w a' w'] run_alerts [of n ticks app w a'' w'']
  by blast

text \<open>
  Witness for C7: three rounds in \<open>w_relock\<close>. The first locks (one alert), the second
  unlocks (no alert), the third locks again (one alert): two acquisitions, two alerts.
\<close>

theorem alert_once_per_acquisition_witness:
  "run 1 ms_ticks calibrated_app w_relock =
     Inr (calibrated_app\<lparr>locked := True, last_freq := 389540000\<rparr>,
          \<lparr>tick_src = [20001, 30000, 30010, 30015, 30024], rssi_src = [- 100, - 70, - 70],
           input_src = [], effects = [Tune 389540000, Alert]\<rparr>) \<and>
   run 2 ms_ticks calibrated_app w_relock =
     Inr (calibrated_app\<lparr>last_freq := 389540000, last_rssi := - 100\<rparr>,
          \<lparr>tick_src = [30000, 30010, 30015, 30024], rssi_src = [- 70, - 70],
           input_src = [], effects = [Tune 389540000, Alert, Tune 389540000]\<rparr>) \<and>
   run 3 ms_ticks calibrated_app w_relock =
     Inr (calibrated_app\<lparr>locked := True, lock_start := 30000, last_freq := 389540000,
            last_rssi := - 100\<rparr>,
          \<lparr>tick_src = [], rssi_src = [], input_src = [],
           effects = [Tune 389540000, Alert, Tune 389540000, Tune 389540000, Alert]\<rparr>) \<and>
   acquisitions 3 ms_ticks calibrated_app w_relock = 2 \<and>
   alerts \<lparr>tick_src = [], rssi_src = [], input_src = [],
     effects = [Tune 389540000, Alert, Tune 389540000, Tune 389540000, Alert]\<rparr> = 2"
proof -
  let ?A1 = "calibrated_app\<lparr>locked := True, last_freq := 389540000\<rparr>"
  let ?W1 = "\<lparr>tick_src = [20001, 30000, 30010, 30015, 30024], rssi_src = [- 100, - 70, - 70],
           input_src = [], effects = [Tune 389540000, Alert]\<rparr>"
  let ?A3 = "calibrated_app\<lparr>locked := True, lock_start := 30000, last_freq := 389540000,
            last_rssi := - 100\<rparr>"
  let ?W3 = "\<lparr>tick_src = [], rssi_src = [], input_src = [],
           effects = [Tune 389540000, Alert, Tune 389540000, Tune 389540000, Alert]\<rparr>"
  have i: "iteration ms_ticks calibrated_app w_relock = Inr (?A1, ?W1)" by code_simp
  have e1: "run 1 ms_ticks calibrated_app w_relock = Inr (?A1, ?W1)" by code_simp
  have e2: "run 2 ms_ticks calibrated_app w_relock =
     Inr (calibrated_app\<lparr>last_freq := 389540000, last_rssi := - 100\<rparr>,
          \<lparr>tick_src = [30000, 30010, 30015, 30024], rssi_src = [- 70, - 70],
           input_src = [], effects = [Tune 389540000, Alert, Tune 389540000]\<rparr>)" by code_simp
  have e3: "run 3 ms_ticks calibrated_app w_relock = Inr (?A3, ?W3)" by code_simp
  have a0: "alerts w_relock = 0" by (simp add: alerts_def w_relock_def)
  have q: "acquisitions 3 ms_ticks calibrated_app w_relock = 2" by code_simp
  from alert_once_per_acquisition [of ms_ticks calibrated_app w_relock ?A1 ?W1 3 ?A3 ?W3] i e3
  have "alerts ?W3 = alerts w_relock + acquisitions 3 ms_ticks calibrated_app w_relock"
    by blast
  with a0 q have "alerts ?W3 = 2" by simp
  with e1 e2 e3 q show ?thesis by simp
qed

subsection \<open>C8: the locked frequency\<close>

text \<open>
  C8, as amended. The code has no separate locked frequency that could be undefined: it
  is \<open>last_freq\<close>, a plain \<^verbatim>\<open>uint32_t\<close>. Every round of the main loop entered in the
  Locked state leaves \<open>last_freq\<close> as it was, whether the round re-confirms, fails or
  unlocks; the transition back to Scanning resets the flag \<open>locked\<close> only.
\<close>

theorem locked_frequency_kept:
  assumes "locked app" and "iteration ticks app w = Inr (a', w')"
  shows "last_freq a' = last_freq app"
proof -
  from iteration_Inr [OF assms(2)] assms(1) obtain now ts where
    "locked_step ticks now app (w\<lparr>tick_src := ts\<rparr>) = Inr (a', w')" by auto
  from locked_step_facts [OF this] show ?thesis by simp
qed

text \<open>
  Witness for C8: \<open>locked_app\<close> (locked at tick 0 on 389.540 MHz) fails its check at tick
  20001 and unlocks; \<open>last_freq\<close> is still 389.540 MHz.
\<close>

theorem locked_frequency_kept_witness:
  "iteration ms_ticks locked_app w_expire =
     Inr (locked_app\<lparr>locked := False, last_rssi := - 100\<rparr>,
          \<lparr>tick_src = [], rssi_src = [], input_src = [], effects = [Tune 389540000]\<rparr>) \<and>
   last_freq (locked_app\<lparr>locked := False, last_rssi := - 100\<rparr>) = 389540000"
proof -
  let ?w = "w_expire"
  let ?a' = "locked_app\<lparr>locked := False, last_rssi := - 100\<rparr>"
  let ?w' = "\<lparr>tick_src = [], rssi_src = [], input_src = [], effects = [Tune 389540000]\<rparr>"
  have l: "locked locked_app" by (simp add: locked_app_def)
  have i: "iteration ms_ticks locked_app ?w = Inr (?a', ?w')" by code_simp
  from locked_frequency_kept [OF l i] have "last_freq ?a' = last_freq locked_app" .
  with i show ?thesis by (simp add: locked_app_def)
qed

text \<open>
  Counterexample to C8 as stated (unlocking clears the locked frequency): in \<open>w_unlock\<close>
  the first round locks on 389.540 MHz and the second round unlocks; afterwards
  \<open>locked\<close> is false and \<open>last_freq\<close> still holds 389.540 MHz.
\<close>

theorem unlock_keeps_frequency_counterexample:
  "run 1 ms_ticks calibrated_app w_unlock =
     Inr (calibrated_app\<lparr>locked := True, last_freq := 389540000\<rparr>,
          \<lparr>tick_src = [20001], rssi_src = [- 100], input_src = [],
           effects = [Tune 389540000, Alert]\<rparr>) \<and>
   run 2 ms_ticks calibrated_app w_unlock =
     Inr (calibrated_app\<lparr>locked := False, last_freq := 389540000, last_rssi := - 100\<rparr>,
          \<lparr>tick_src = [], rssi_src = [], input_src = [],
           effects = [Tune 389540000, Alert, Tune 389540000]\<rparr>)"
  by code_simp

subsection \<open>C9: start-up failures\<close>

text \<open>
  C9. If the GUI record, the notification record or the radio device is missing, or the
  radio's \<^verbatim>\<open>begin\<close> fails, \<^verbatim>\<open>python_detector_app\<close> returns \<open>-1\<close> whatever the number of
  rounds allowed, and the world it leaves differs from the one it found by exactly these
  log entries: the two \<^verbatim>\<open>furi_record_open\<close> calls; then, if both records are there, the
  initialisation of the device registry, the one \<^verbatim>\<open>begin\<close> attempt if a device was found,
  and the release of the registry. No call is made twice (no retry), and nothing of the
  later start-up happens (no partial start-up): no frequency is tuned and no sample or
  clock reading taken, so calibration does not run, the view port is not registered and
  the scan loop is not entered. The log also shows what the failure paths leave behind:
  they do not call \<^verbatim>\<open>furi_record_close\<close>.
\<close>

theorem startup_fail_fast:
  assumes "\<not> gui_record p \<or> \<not> notification_record p \<or> \<not> radio_device p \<or> \<not> radio_begin p"
  shows "python_detector_app n p w =
     Inr (- 1, w\<lparr>effects := effects w @
       [RecordOpen ''gui'', RecordOpen ''notification''] @
       (if \<not> gui_record p \<or> \<not> notification_record p then []
        else if \<not> radio_device p then [RegistryInit, RegistryDeinit]
        else [RegistryInit, RadioBegin, RegistryDeinit])\<rparr>)"
proof -
  consider "\<not> gui_record p \<or> \<not> notification_record p"
    | "gui_record p" "notification_record p" "\<not> radio_device p"
    | "gui_record p" "notification_record p" "radio_device p" "\<not> radio_begin p"
    using assms by blast
  then show ?thesis
  proof cases
    case 1
    then show ?thesis by (auto simp: python_detector_app_def emit_def Let_def)
  next
    case 2
    then show ?thesis by (simp add: python_detector_app_def emit_def Let_def)
  next
    case 3
    then show ?thesis by (simp add: python_detector_app_def emit_def Let_def)
  qed
qed

text \<open>
  Witness for C9: on \<open>no_radio\<close> the program returns \<open>-1\<close> after one \<^verbatim>\<open>begin\<close> attempt and
  leaves the scripts of \<open>w_toggle\<close> unread.
\<close>

theorem startup_fail_fast_witness:
  "python_detector_app 5 no_radio w_toggle =
     Inr (- 1, w_toggle\<lparr>effects := [RecordOpen ''gui'', RecordOpen ''notification'',
                                      RegistryInit, RadioBegin, RegistryDeinit]\<rparr>)"
proof -
  have h: "\<not> gui_record no_radio \<or> \<not> notification_record no_radio \<or> \<not> radio_device no_radio \<or>
      \<not> radio_begin no_radio"
    by (simp add: no_radio_def)
  from startup_fail_fast [OF h, of 5 w_toggle]
  show ?thesis by (simp add: no_radio_def flipper_def w_toggle_def)
qed

subsection \<open>C10: the sensitivity cycle\<close>

text \<open>
  C10. With the sensitivity in \<open>1 .. 5\<close>, a press of the Right key yields the next value
  of the cycle 1, 2, 3, 4, 5, 1: one more below 5, and 1 from 5. No key event of any kind
  takes the sensitivity out of \<open>1 .. 5\<close>.
\<close>

theorem sens_cycle:
  assumes "1 \<le> sens app" and "sens app \<le> 5" and "tick_src w = t # ts"
  shows "(\<exists>a' w'. input_cb ticks (InputEvent InputTypePress InputKeyRight) app w = Inr (a', w') \<and>
            sens a' = (if sens app = 5 then 1 else sens app + 1) \<and>
            1 \<le> sens a' \<and> sens a' \<le> 5) \<and>
         (\<forall>e b' v'. input_cb ticks e app w = Inr (b', v') \<longrightarrow> 1 \<le> sens b' \<and> sens b' \<le> 5)"
proof (intro conjI allI impI)
  show "\<exists>a' w'. input_cb ticks (InputEvent InputTypePress InputKeyRight) app w = Inr (a', w') \<and>
            sens a' = (if sens app = 5 then 1 else sens app + 1) \<and>
            1 \<le> sens a' \<and> sens a' \<le> 5"
    using assms by (auto simp: furi_get_tick_def)
next
  fix e b' v'
  assume r: "input_cb ticks e app w = Inr (b', v')"
  obtain ty k where e: "e = InputEvent ty k" by (cases e)
  show "1 \<le> sens b'"
    using r assms unfolding e by (cases k) (auto simp: furi_get_tick_def split: if_splits)
  show "sens b' \<le> 5"
    using r assms unfolding e by (cases k) (auto simp: furi_get_tick_def split: if_splits)
qed

text \<open>Witness for C10: Right pressed at sensitivity 5 and at the initial sensitivity 3.\<close>

theorem sens_cycle_witness:
  "input_cb ms_ticks (InputEvent InputTypePress InputKeyRight) (initial_app\<lparr>sens := 5\<rparr>) w_key =
     Inr (initial_app\<lparr>sens := 1, popup_until := 2500\<rparr>,
          \<lparr>tick_src = [], rssi_src = [], input_src = [], effects = [Ack]\<rparr>) \<and>
   input_cb ms_ticks (InputEvent InputTypePress InputKeyRight) initial_app w_key =
     Inr (initial_app\<lparr>sens := 4, popup_until := 2500\<rparr>,
          \<lparr>tick_src = [], rssi_src = [], input_src = [], effects = [Ack]\<rparr>)"
proof -
  have h1: "1 \<le> sens (initial_app\<lparr>sens := 5\<rparr>)" and h2: "sens (initial_app\<lparr>sens := 5\<rparr>) \<le> 5"
    by simp_all
  have h3: "tick_src w_key = 500 # []" by (simp add: w_key_def)
  note sens_cycle [OF h1 h2 h3, of ms_ticks]
  then show ?thesis
    by (simp add: furi_get_tick_def w_key_def emit_def ms_ticks_def POPUP_MS_def initial_app_def)
qed


end
